theory Spec2Isabelle
  imports Main "HOL-Library.Sublist" "HOL-Library.Char_ord" "HOL-Library.List_Lexorder"
begin

section \<open>Strings\<close>

text \<open>
  A Python \<open>str\<close> is modelled by the bytes of its UTF-8 encoding (\<open>string\<close> is a list of
  8-bit characters).  Equality of labels is preserved by the encoding.  \<open>str.lower()\<close> is
  modelled on the ASCII letters only: no non-ASCII code point lower-cases to one of the
  letters of \<open>none\<close>, \<open>no\<close>, \<open>false\<close> or \<open>hfq\<close>, and the bytes of a non-ASCII code point
  are all above 127, so the comparisons of the adjustment mapper agree with Python's.
\<close>

definition upper_letters :: string where
  "upper_letters = ''ABCDEFGHIJKLMNOPQRSTUVWXYZ''"

definition lower_letters :: string where
  "lower_letters = ''abcdefghijklmnopqrstuvwxyz''"

definition lower_char :: "char \<Rightarrow> char" where
  "lower_char c = (case map_of (zip upper_letters lower_letters) c of None \<Rightarrow> c | Some d \<Rightarrow> d)"

definition lower :: "string \<Rightarrow> string" where
  "lower s = map lower_char s"

section \<open>The adjustment mapper (lines 21 to 26)\<close>

definition no_adjust_words :: "string list" where
  "no_adjust_words = [''none'', ''no'', ''false'', '''']"

definition ak_adjust_of :: "string \<Rightarrow> string" where
  "ak_adjust_of adjust_type =
     (if lower adjust_type \<in> set no_adjust_words then ''''
      else if lower adjust_type = ''hfq'' then ''hfq''
      else ''qfq'')"

section \<open>The output path (lines 74 to 85)\<close>

text \<open>\<open>os.path.join\<close> of two components on a POSIX system: an absolute second component
  replaces the first; a separator is inserted unless the first is empty or ends in one.\<close>

definition os_path_join :: "string \<Rightarrow> string \<Rightarrow> string" where
  "os_path_join a b =
     (if b \<noteq> [] \<and> hd b = CHR ''/'' then b
      else if a = [] \<or> last a = CHR ''/'' then a @ b
      else a @ ''/'' @ b)"

definition data_dir_of :: "string \<Rightarrow> string" where
  "data_dir_of script_dir = os_path_join script_dir ''A_data''"

definition adj_suffix_of :: "string \<Rightarrow> string" where
  "adj_suffix_of ak_adjust = (if ak_adjust = '''' then ''no_adj'' else ak_adjust)"

definition filename_of :: "string \<Rightarrow> string \<Rightarrow> string" where
  "filename_of symbol ak_adjust = symbol @ ''_'' @ adj_suffix_of ak_adjust @ ''_A_data.csv''"

definition full_file_path_of :: "string \<Rightarrow> string \<Rightarrow> string \<Rightarrow> string" where
  "full_file_path_of script_dir symbol ak_adjust =
     os_path_join (data_dir_of script_dir) (filename_of symbol ak_adjust)"

section \<open>Exceptions\<close>

text \<open>The exceptions the run can meet.  \<open>KeyboardInterrupt\<close> and \<open>SystemExit\<close> derive from
  \<open>BaseException\<close> only; the others derive from \<open>Exception\<close>.\<close>

datatype exn =
    KeyError string
  | ValueError
  | TypeError
  | OutOfBoundsDatetime
  | OSError string
  | ProviderError string
  | KeyboardInterrupt
  | SystemExit nat

fun is_Exception :: "exn \<Rightarrow> bool" where
  "is_Exception KeyboardInterrupt = False"
| "is_Exception (SystemExit n) = False"
| "is_Exception e = True"

section \<open>Calendar dates and their text\<close>

type_synonym date = "nat \<times> nat \<times> nat"

definition leap_year :: "nat \<Rightarrow> bool" where
  "leap_year y = (y mod 4 = 0 \<and> (y mod 100 \<noteq> 0 \<or> y mod 400 = 0))"

definition days_in_month :: "nat \<Rightarrow> nat \<Rightarrow> nat" where
  "days_in_month y m =
     (if m = 2 then (if leap_year y then 29 else 28)
      else if m = 4 \<or> m = 6 \<or> m = 9 \<or> m = 11 then 30 else 31)"

fun valid_date :: "date \<Rightarrow> bool" where
  "valid_date (y, m, d) = (1 \<le> m \<and> m \<le> 12 \<and> 1 \<le> d \<and> d \<le> days_in_month y m)"

fun date_le :: "date \<Rightarrow> date \<Rightarrow> bool" where
  "date_le (y, m, d) (y', m', d') =
     (y < y' \<or> (y = y' \<and> (m < m' \<or> (m = m' \<and> d \<le> d'))))"

text \<open>The days a nanosecond-resolution \<open>Timestamp\<close> can hold:
  1677-09-22 to 2262-04-11.\<close>

definition in_bounds :: "date \<Rightarrow> bool" where
  "in_bounds dt = (valid_date dt \<and> date_le (1677, 9, 22) dt \<and> date_le dt (2262, 4, 11))"

definition digit_chars :: string where
  "digit_chars = ''0123456789''"

definition digit :: "nat \<Rightarrow> char" where
  "digit n = digit_chars ! (n mod 10)"

definition dec2 :: "nat \<Rightarrow> string" where
  "dec2 n = [digit (n div 10), digit n]"

definition dec4 :: "nat \<Rightarrow> string" where
  "dec4 n = [digit (n div 1000), digit (n div 100), digit (n div 10), digit n]"

text \<open>\<open>strftime('%Y-%m-%d')\<close> of a timestamp (its year has four digits).\<close>

fun strftime_ymd :: "date \<Rightarrow> string" where
  "strftime_ymd (y, m, d) = dec4 y @ ''-'' @ dec2 m @ ''-'' @ dec2 d"

definition is_digit :: "char \<Rightarrow> bool" where
  "is_digit c = (c \<in> set digit_chars)"

text \<open>The strict shape \<open>YYYY-MM-DD\<close>: ten characters, digits around two hyphens.\<close>

fun is_yyyy_mm_dd :: "string \<Rightarrow> bool" where
  "is_yyyy_mm_dd [y1, y2, y3, y4, s1, m1, m2, s2, d1, d2] =
     (is_digit y1 \<and> is_digit y2 \<and> is_digit y3 \<and> is_digit y4 \<and> s1 = CHR ''-'' \<and>
      is_digit m1 \<and> is_digit m2 \<and> s2 = CHR ''-'' \<and> is_digit d1 \<and> is_digit d2)"
| "is_yyyy_mm_dd _ = False"

text \<open>The decimal text of a row label.\<close>

fun dec :: "nat \<Rightarrow> string" where
  "dec n = (if n < 10 then [digit n] else dec (n div 10) @ [digit n])"

section \<open>Tables\<close>

text \<open>
  A cell of a \<open>DataFrame\<close>: missing (\<open>None\<close>, \<open>NaN\<close>, \<open>NaT\<close>), a number other than
  \<open>NaN\<close> (the type \<open>'n\<close> stands for the floating-point values, which the program never
  inspects), a string, or a \<open>datetime.date\<close>.  A frame has its column labels, which may
  repeat, and its rows in order, each with its index label.
\<close>

datatype 'n cell = NA | Num 'n | Str string | Day date

record 'n frame =
  columns :: "string list"
  rows :: "(nat \<times> 'n cell list) list"

definition wf_frame :: "'n frame \<Rightarrow> bool" where
  "wf_frame df = list_all (\<lambda>r. length (snd r) = length (columns df)) (rows df)"

text \<open>\<open>df.empty\<close>: one of the two axes has length 0.\<close>

definition df_empty :: "'n frame \<Rightarrow> bool" where
  "df_empty df = (columns df = [] \<or> rows df = [])"

text \<open>
  The scalar conversions of the table library that the program relies on but does not
  contain: the number parser of \<open>to_numeric\<close>, the value \<open>to_numeric\<close> gives a cell that
  is a number already (the number in the numeric type of the column: a large integer
  may be rounded to a float), the date parser of \<open>to_datetime\<close> (a string is unparseable,
  or denotes \<open>NaT\<close>, or a day), the day of a number read as an epoch offset, and the text
  of a number in a CSV field.
\<close>

record 'n pandas =
  parse_num :: "string \<Rightarrow> 'n option"
  num_cast :: "'n \<Rightarrow> 'n"
  parse_ts :: "string \<Rightarrow> date option option"
  num_ts :: "'n \<Rightarrow> date option"
  fmt_num :: "'n \<Rightarrow> string"

text \<open>\<open>df[col]\<close>: a missing label raises \<open>KeyError\<close>, a label that occurs once gives the
  column, a repeated label gives a sub-frame.\<close>

definition positions :: "string list \<Rightarrow> string \<Rightarrow> nat list" where
  "positions cs c = filter (\<lambda>i. cs ! i = c) [0..<length cs]"

datatype 'n selection = Series "'n cell list" | SubFrame

definition getitem :: "'n frame \<Rightarrow> string \<Rightarrow> exn + 'n selection" where
  "getitem df col =
     (case positions (columns df) col of
        [] \<Rightarrow> Inl (KeyError col)
      | [i] \<Rightarrow> Inr (Series (map (\<lambda>r. snd r ! i) (rows df)))
      | _ \<Rightarrow> Inr SubFrame)"

text \<open>\<open>df[col] = values\<close>: every column labelled \<open>col\<close> takes the values, row by row; a
  new label is appended as a new column.\<close>

definition set_cell :: "string list \<Rightarrow> string \<Rightarrow> 'n cell \<Rightarrow> 'n cell list \<Rightarrow> 'n cell list" where
  "set_cell cs col v r = map (\<lambda>(c, x). if c = col then v else x) (zip cs r)"

definition setitem :: "'n frame \<Rightarrow> string \<Rightarrow> 'n cell list \<Rightarrow> 'n frame" where
  "setitem df col vs =
     (if col \<in> set (columns df)
      then df\<lparr>rows := map (\<lambda>((ix, r), v). (ix, set_cell (columns df) col v r)) (zip (rows df) vs)\<rparr>
      else df\<lparr>columns := columns df @ [col],
              rows := map (\<lambda>((ix, r), v). (ix, r @ [v])) (zip (rows df) vs)\<rparr>)"

section \<open>The normalizer (lines 44 to 70)\<close>

definition lbl_date :: string where
  "lbl_date = [CHR 0xE6, CHR 0x97, CHR 0xA5, CHR 0xE6, CHR 0x9C, CHR 0x9F]"

definition lbl_open :: string where
  "lbl_open = [CHR 0xE5, CHR 0xBC, CHR 0x80, CHR 0xE7, CHR 0x9B, CHR 0x98]"

definition lbl_close :: string where
  "lbl_close = [CHR 0xE6, CHR 0x94, CHR 0xB6, CHR 0xE7, CHR 0x9B, CHR 0x98]"

definition lbl_high :: string where
  "lbl_high = [CHR 0xE6, CHR 0x9C, CHR 0x80, CHR 0xE9, CHR 0xAB, CHR 0x98]"

definition lbl_low :: string where
  "lbl_low = [CHR 0xE6, CHR 0x9C, CHR 0x80, CHR 0xE4, CHR 0xBD, CHR 0x8E]"

definition lbl_volume :: string where
  "lbl_volume = [CHR 0xE6, CHR 0x88, CHR 0x90, CHR 0xE4, CHR 0xBA, CHR 0xA4, CHR 0xE9, CHR 0x87, CHR 0x8F]"

definition lbl_amount :: string where
  "lbl_amount = [CHR 0xE6, CHR 0x88, CHR 0x90, CHR 0xE4, CHR 0xBA, CHR 0xA4, CHR 0xE9, CHR 0xA2, CHR 0x9D]"

definition lbl_amplitude :: string where
  "lbl_amplitude = [CHR 0xE6, CHR 0x8C, CHR 0xAF, CHR 0xE5, CHR 0xB9, CHR 0x85]"

definition lbl_pct_change :: string where
  "lbl_pct_change = [CHR 0xE6, CHR 0xB6, CHR 0xA8, CHR 0xE8, CHR 0xB7, CHR 0x8C, CHR 0xE5, CHR 0xB9, CHR 0x85]"

definition lbl_price_change :: string where
  "lbl_price_change = [CHR 0xE6, CHR 0xB6, CHR 0xA8, CHR 0xE8, CHR 0xB7, CHR 0x8C, CHR 0xE9, CHR 0xA2, CHR 0x9D]"

definition lbl_turnover :: string where
  "lbl_turnover = [CHR 0xE6, CHR 0x8D, CHR 0xA2, CHR 0xE6, CHR 0x89, CHR 0x8B, CHR 0xE7, CHR 0x8E, CHR 0x87]"

text \<open>The \<open>columns=\<close> dictionary of \<open>df.rename\<close>, the source labels being the UTF-8 bytes
  of the eleven labels of lines 45 to 55.\<close>

definition rename_table :: "(string \<times> string) list" where
  "rename_table =
     [(lbl_date, ''date''), (lbl_open, ''open''), (lbl_close, ''close''),
      (lbl_high, ''high''), (lbl_low, ''low''), (lbl_volume, ''volume''),
      (lbl_amount, ''amount''), (lbl_amplitude, ''amplitude''),
      (lbl_pct_change, ''pct_change''), (lbl_price_change, ''price_change''),
      (lbl_turnover, ''turnover'')]"

definition rename_label :: "(string \<times> string) list \<Rightarrow> string \<Rightarrow> string" where
  "rename_label tbl c = (case map_of tbl c of None \<Rightarrow> c | Some c' \<Rightarrow> c')"

definition rename_columns :: "(string \<times> string) list \<Rightarrow> 'n frame \<Rightarrow> 'n frame" where
  "rename_columns tbl df = df\<lparr>columns := map (rename_label tbl) (columns df)\<rparr>"

text \<open>\<open>pd.to_datetime\<close> with the default \<open>errors='raise'\<close>, then \<open>.dt.strftime\<close>.\<close>

definition checked_ts :: "date \<Rightarrow> exn + date option" where
  "checked_ts dt = (if in_bounds dt then Inr (Some dt) else Inl OutOfBoundsDatetime)"

fun to_datetime_cell :: "'n pandas \<Rightarrow> 'n cell \<Rightarrow> exn + date option" where
  "to_datetime_cell pd NA = Inr None"
| "to_datetime_cell pd (Day dt) = checked_ts dt"
| "to_datetime_cell pd (Str s) =
     (case parse_ts pd s of
        None \<Rightarrow> Inl ValueError
      | Some None \<Rightarrow> Inr None
      | Some (Some dt) \<Rightarrow> checked_ts dt)"
| "to_datetime_cell pd (Num n) =
     (case num_ts pd n of None \<Rightarrow> Inl OutOfBoundsDatetime | Some dt \<Rightarrow> checked_ts dt)"

fun sequence_exn :: "(exn + 'a) list \<Rightarrow> exn + 'a list" where
  "sequence_exn [] = Inr []"
| "sequence_exn (x # xs) =
     (case x of
        Inl e \<Rightarrow> Inl e
      | Inr v \<Rightarrow> (case sequence_exn xs of Inl e \<Rightarrow> Inl e | Inr vs \<Rightarrow> Inr (v # vs)))"

definition to_datetime :: "'n pandas \<Rightarrow> 'n selection \<Rightarrow> exn + date option list" where
  "to_datetime pd sel =
     (case sel of
        SubFrame \<Rightarrow> Inl ValueError
      | Series cs \<Rightarrow> sequence_exn (map (to_datetime_cell pd) cs))"

fun dt_strftime :: "date option \<Rightarrow> 'n cell" where
  "dt_strftime None = NA"
| "dt_strftime (Some dt) = Str (strftime_ymd dt)"

text \<open>\<open>pd.to_numeric(..., errors='coerce')\<close>.\<close>

fun to_numeric_cell :: "'n pandas \<Rightarrow> 'n cell \<Rightarrow> 'n cell" where
  "to_numeric_cell pd NA = NA"
| "to_numeric_cell pd (Num n) = Num (num_cast pd n)"
| "to_numeric_cell pd (Str s) = (case parse_num pd s of None \<Rightarrow> NA | Some n \<Rightarrow> Num n)"
| "to_numeric_cell pd (Day dt) = NA"

definition to_numeric_coerce :: "'n pandas \<Rightarrow> 'n selection \<Rightarrow> exn + 'n cell list" where
  "to_numeric_coerce pd sel =
     (case sel of
        SubFrame \<Rightarrow> Inl TypeError
      | Series cs \<Rightarrow> Inr (map (to_numeric_cell pd) cs))"

definition numeric_cols :: "string list" where
  "numeric_cols = [''open'', ''close'', ''high'', ''low'', ''volume'', ''amount'',
                   ''amplitude'', ''pct_change'', ''price_change'', ''turnover'']"

text \<open>The loop of lines 64 and 65.\<close>

fun coerce_numeric_cols :: "'n pandas \<Rightarrow> string list \<Rightarrow> 'n frame \<Rightarrow> exn + 'n frame" where
  "coerce_numeric_cols pd [] df = Inr df"
| "coerce_numeric_cols pd (col # cols) df =
     (case getitem df col of
        Inl e \<Rightarrow> Inl e
      | Inr sel \<Rightarrow>
          (case to_numeric_coerce pd sel of
             Inl e \<Rightarrow> Inl e
           | Inr vs \<Rightarrow> coerce_numeric_cols pd cols (setitem df col vs)))"

definition essential_cols :: "string list" where
  "essential_cols = [''open'', ''high'', ''low'', ''close'', ''volume'']"

text \<open>\<open>df.dropna(subset=..., how='all')\<close>: a label of the subset that is no column raises
  \<open>KeyError\<close>; a row goes when every cell under a label of the subset is missing.\<close>

definition all_na :: "string list \<Rightarrow> string list \<Rightarrow> 'n cell list \<Rightarrow> bool" where
  "all_na keys cs r = list_all (\<lambda>(c, v). c \<in> set keys \<longrightarrow> v = NA) (zip cs r)"

definition dropna_all :: "string list \<Rightarrow> 'n frame \<Rightarrow> exn + 'n frame" where
  "dropna_all keys df =
     (case filter (\<lambda>c. c \<notin> set (columns df)) keys of
        c # cs \<Rightarrow> Inl (KeyError c)
      | [] \<Rightarrow> Inr (df\<lparr>rows := filter (\<lambda>r. \<not> all_na keys (columns df) (snd r)) (rows df)\<rparr>))"

text \<open>Lines 44 to 65: the renaming, the date column, the numeric columns.\<close>

definition coerce_frame :: "'n pandas \<Rightarrow> 'n frame \<Rightarrow> exn + 'n frame" where
  "coerce_frame pd df0 =
     (let df1 = rename_columns rename_table df0 in
      case getitem df1 ''date'' of
        Inl e \<Rightarrow> Inl e
      | Inr sel \<Rightarrow>
          (case to_datetime pd sel of
             Inl e \<Rightarrow> Inl e
           | Inr ts \<Rightarrow>
               coerce_numeric_cols pd numeric_cols
                 (setitem df1 ''date'' (map dt_strftime ts))))"

text \<open>Lines 44 to 70: the above, then the rows without any essential value go.\<close>

definition normalize :: "'n pandas \<Rightarrow> 'n frame \<Rightarrow> exn + 'n frame" where
  "normalize pd df0 =
     (case coerce_frame pd df0 of
        Inl e \<Rightarrow> Inl e
      | Inr df3 \<Rightarrow> dropna_all essential_cols df3)"

section \<open>Reading a table row by row\<close>

text \<open>
  Notions used to state the properties; they are not part of the program.  The cell of a
  row under a label; what lines 59 to 65 make of one cell under a given (renamed) label
  and of one row; whether a row has a value in an essential column.
\<close>

definition field :: "string list \<Rightarrow> 'n cell list \<Rightarrow> string \<Rightarrow> 'n cell option" where
  "field cs r c = map_of (zip cs r) c"

definition date_text :: "'n pandas \<Rightarrow> 'n cell \<Rightarrow> 'n cell" where
  "date_text pd x = (case to_datetime_cell pd x of Inl e \<Rightarrow> NA | Inr t \<Rightarrow> dt_strftime t)"

definition norm_cell :: "'n pandas \<Rightarrow> string \<Rightarrow> 'n cell \<Rightarrow> 'n cell" where
  "norm_cell pd c x =
     (if c = ''date'' then date_text pd x
      else if c \<in> set numeric_cols then to_numeric_cell pd x
      else x)"

definition norm_row :: "'n pandas \<Rightarrow> string list \<Rightarrow> nat \<times> 'n cell list \<Rightarrow> nat \<times> 'n cell list" where
  "norm_row pd cs r = (fst r, map (\<lambda>(c, x). norm_cell pd c x) (zip cs (snd r)))"


definition has_value :: "string list \<Rightarrow> 'n cell list \<Rightarrow> string \<Rightarrow> bool" where
  "has_value cs r c = (case field cs r c of None \<Rightarrow> False | Some v \<Rightarrow> v \<noteq> NA)"

definition has_essential :: "string list \<Rightarrow> 'n cell list \<Rightarrow> bool" where
  "has_essential cs r = list_ex (has_value cs r) essential_cols"

text \<open>
  The day a fetched row stands for (under the renamed labels), the text of the date in a
  normalized row, and the two orders: days by the calendar, texts as strings.
\<close>

definition input_day :: "'n pandas \<Rightarrow> string list \<Rightarrow> nat \<times> 'n cell list \<Rightarrow> date option" where
  "input_day pd cs r =
     (case field cs (snd r) ''date'' of
        None \<Rightarrow> None
      | Some x \<Rightarrow> (case to_datetime_cell pd x of Inl e \<Rightarrow> None | Inr t \<Rightarrow> t))"

fun day_le :: "date option \<Rightarrow> date option \<Rightarrow> bool" where
  "day_le (Some a) (Some b) = date_le a b"
| "day_le a b = False"

definition output_date :: "string list \<Rightarrow> nat \<times> 'n cell list \<Rightarrow> string option" where
  "output_date cs r = (case field cs (snd r) ''date'' of Some (Str s) \<Rightarrow> Some s | _ \<Rightarrow> None)"

fun text_le :: "string option \<Rightarrow> string option \<Rightarrow> bool" where
  "text_le (Some s) (Some t) = (s \<le> t)"
| "text_le a b = False"

section \<open>The writer (line 88)\<close>

text \<open>
  A CSV file is kept as its encoding and its records, each a list of fields; the first
  record is the header.  \<open>to_csv\<close> writes a missing cell as the empty field and, when
  \<open>index\<close> is set, puts the row label in front of every record.
\<close>

record csv_file =
  encoding :: string
  records :: "string list list"

fun fmt_cell :: "'n pandas \<Rightarrow> 'n cell \<Rightarrow> string" where
  "fmt_cell pd NA = ''''"
| "fmt_cell pd (Num n) = fmt_num pd n"
| "fmt_cell pd (Str s) = s"
| "fmt_cell pd (Day dt) = strftime_ymd dt"

definition csv_records :: "'n pandas \<Rightarrow> bool \<Rightarrow> 'n frame \<Rightarrow> string list list" where
  "csv_records pd index df =
     (if index
      then ('''' # columns df) # map (\<lambda>(ix, r). dec ix # map (fmt_cell pd) r) (rows df)
      else columns df # map (\<lambda>(ix, r). map (fmt_cell pd) r) (rows df))"

section \<open>The world of a run\<close>

text \<open>What the program prints, line by line of the source.\<close>

datatype 'n msg =
    Fetching string string
  | EmptyResult string
  | CreatedDir string
  | Saved string
  | RowCount nat
  | PreviewTitle
  | Preview "'n frame"
  | ExceptionMsg exn
  | Traceback exn

record 'n world =
  dirs :: "string list"
  files :: "string \<Rightarrow> csv_file option"
  console :: "'n msg list"

definition print_msg :: "'n msg \<Rightarrow> 'n world \<Rightarrow> 'n world" where
  "print_msg m w = w\<lparr>console := console w @ [m]\<rparr>"

text \<open>
  What lies outside the program during one run: the table library's conversions, the
  current day as \<open>%Y%m%d\<close>, the provider's answer to a request (a table or an exception),
  the directory of the script, and whether creating the directory or writing the file
  fails.  A write that fails after the file was opened leaves the records written so far.
\<close>

record request =
  rq_symbol :: string
  rq_period :: string
  rq_start_date :: string
  rq_end_date :: string
  rq_adjust :: string

datatype io_fault = OpenFails exn | WriteFails nat exn

record 'n env =
  pd_lib :: "'n pandas"
  now_ymd :: string
  stock_zh_a_hist :: "request \<Rightarrow> exn + 'n frame"
  program_dir :: string
  makedirs_fault :: "exn option"
  to_csv_fault :: "io_fault option"

definition os_path_exists :: "'n world \<Rightarrow> string \<Rightarrow> bool" where
  "os_path_exists w p = (p \<in> set (dirs w) \<or> files w p \<noteq> None)"

definition os_makedirs :: "'n env \<Rightarrow> string \<Rightarrow> 'n world \<Rightarrow> (exn + unit) \<times> 'n world" where
  "os_makedirs ev p w =
     (case makedirs_fault ev of
        Some e \<Rightarrow> (Inl e, w)
      | None \<Rightarrow> (Inr (), w\<lparr>dirs := p # dirs w\<rparr>))"

definition to_csv ::
  "'n env \<Rightarrow> 'n frame \<Rightarrow> string \<Rightarrow> bool \<Rightarrow> string \<Rightarrow> 'n world \<Rightarrow> (exn + unit) \<times> 'n world" where
  "to_csv ev df path index enc w =
     (let recs = csv_records (pd_lib ev) index df in
      case to_csv_fault ev of
        None \<Rightarrow> (Inr (), w\<lparr>files := (files w)(path \<mapsto> \<lparr>encoding = enc, records = recs\<rparr>)\<rparr>)
      | Some (OpenFails e) \<Rightarrow> (Inl e, w)
      | Some (WriteFails k e) \<Rightarrow>
          (Inl e, w\<lparr>files := (files w)(path \<mapsto> \<lparr>encoding = enc, records = take k recs\<rparr>)\<rparr>))"

definition head5 :: "'n frame \<Rightarrow> 'n frame" where
  "head5 df = df\<lparr>rows := take 5 (rows df)\<rparr>"

section \<open>\<open>get_stock_data\<close> (lines 12 to 98)\<close>

text \<open>Lines 74 to 80: the data directory is created when it does not exist.\<close>

definition ensure_data_dir :: "'n env \<Rightarrow> string \<Rightarrow> 'n world \<Rightarrow> (exn + unit) \<times> 'n world" where
  "ensure_data_dir ev data_dir w =
     (if \<not> os_path_exists w data_dir
      then (case os_makedirs ev data_dir w of
              (Inl e, w') \<Rightarrow> (Inl e, w')
            | (Inr u, w') \<Rightarrow> (Inr (), print_msg (CreatedDir data_dir) w'))
      else (Inr (), w))"

text \<open>Lines 72 to 93, after the table has been normalized.\<close>

definition save_and_report ::
  "'n env \<Rightarrow> string \<Rightarrow> string \<Rightarrow> 'n frame \<Rightarrow> 'n world \<Rightarrow> (exn + unit) \<times> 'n world" where
  "save_and_report ev symbol ak_adjust df w =
     (case ensure_data_dir ev (data_dir_of (program_dir ev)) w of
        (Inl e, w1) \<Rightarrow> (Inl e, w1)
      | (Inr u, w1) \<Rightarrow>
          (let full_file_path = full_file_path_of (program_dir ev) symbol ak_adjust in
           case to_csv ev df full_file_path False ''utf-8'' w1 of
             (Inl e, w2) \<Rightarrow> (Inl e, w2)
           | (Inr u, w2) \<Rightarrow>
               (Inr (),
                print_msg (Preview (head5 df))
                  (print_msg PreviewTitle
                    (print_msg (RowCount (length (rows df)))
                      (print_msg (Saved full_file_path) w2))))))"

text \<open>The arguments of the call of lines 30 to 36.\<close>

definition hist_request :: "'n env \<Rightarrow> string \<Rightarrow> string \<Rightarrow> request" where
  "hist_request ev symbol ak_adjust =
     \<lparr>rq_symbol = symbol, rq_period = ''daily'', rq_start_date = ''19900101'',
      rq_end_date = now_ymd ev, rq_adjust = ak_adjust\<rparr>"

text \<open>The body of the \<open>try\<close> statement, lines 29 to 93.\<close>

definition try_body ::
  "'n env \<Rightarrow> string \<Rightarrow> string \<Rightarrow> 'n world \<Rightarrow> (exn + unit) \<times> 'n world" where
  "try_body ev symbol ak_adjust w =
     (case stock_zh_a_hist ev (hist_request ev symbol ak_adjust) of
        Inl e \<Rightarrow> (Inl e, w)
      | Inr df \<Rightarrow>
          if df_empty df then (Inr (), print_msg (EmptyResult symbol) w)
          else (case normalize (pd_lib ev) df of
                  Inl e \<Rightarrow> (Inl e, w)
                | Inr df' \<Rightarrow> save_and_report ev symbol ak_adjust df' w))"

text \<open>The function: \<open>Inr ()\<close> is a normal return, \<open>Inl e\<close> an exception that leaves it.
  The handler of line 95 takes the exceptions that derive from \<open>Exception\<close>.\<close>

definition get_stock_data ::
  "'n env \<Rightarrow> string \<Rightarrow> string \<Rightarrow> 'n world \<Rightarrow> (exn + unit) \<times> 'n world" where
  "get_stock_data ev symbol adjust_type w =
     (case try_body ev symbol (ak_adjust_of adjust_type)
             (print_msg (Fetching symbol adjust_type) w) of
        (Inr u, w') \<Rightarrow> (Inr (), w')
      | (Inl e, w') \<Rightarrow>
          if is_Exception e
          then (Inr (), print_msg (Traceback e) (print_msg (ExceptionMsg e) w'))
          else (Inl e, w'))"

section \<open>The command line (lines 101 to 109)\<close>

text \<open>
  The command line as the argument parser reads it: occurrences of \<open>--code\<close> and
  \<open>--adjust\<close> with their values, of the help flag, and anything else.  A value outside the
  choices ends the process with status 2 where it stands, the help flag with status 0;
  a missing required option and unrecognized arguments end it with status 2 at the end.
\<close>

datatype cli_item = OptCode string | OptAdjust string | OptHelp | Unrecognized string

record args =
  arg_code :: string
  arg_adjust :: string

definition adjust_choices :: "string list" where
  "adjust_choices = [''qfq'', ''hfq'', ''none'']"

fun parse_items :: "string option \<Rightarrow> string \<Rightarrow> bool \<Rightarrow> cli_item list \<Rightarrow> exn + args" where
  "parse_items c a extras [] =
     (case c of
        None \<Rightarrow> Inl (SystemExit 2)
      | Some v \<Rightarrow> if extras then Inl (SystemExit 2) else Inr \<lparr>arg_code = v, arg_adjust = a\<rparr>)"
| "parse_items c a extras (OptCode v # xs) = parse_items (Some v) a extras xs"
| "parse_items c a extras (OptAdjust v # xs) =
     (if v \<in> set adjust_choices then parse_items c v extras xs else Inl (SystemExit 2))"
| "parse_items c a extras (OptHelp # xs) = Inl (SystemExit 0)"
| "parse_items c a extras (Unrecognized s # xs) = parse_items c a True xs"

definition parse_args :: "cli_item list \<Rightarrow> exn + args" where
  "parse_args argv = parse_items None ''qfq'' False argv"

definition main :: "'n env \<Rightarrow> cli_item list \<Rightarrow> 'n world \<Rightarrow> (exn + unit) \<times> 'n world" where
  "main ev argv w =
     (case parse_args argv of
        Inl e \<Rightarrow> (Inl e, w)
      | Inr a \<Rightarrow> get_stock_data ev (arg_code a) (arg_adjust a) w)"

section \<open>A sample run\<close>

text \<open>
  Concrete data on which the theorems below are exercised: the twelve columns the
  provider sends at present (the eleven of the rename table and the stock code after
  the date), a table of the eleven columns alone, and an environment without faults.
\<close>

definition lbl_code :: string where
  "lbl_code = [CHR 0xE8, CHR 0x82, CHR 0xA1, CHR 0xE7, CHR 0xA5, CHR 0xA8,
               CHR 0xE4, CHR 0xBB, CHR 0xA3, CHR 0xE7, CHR 0xA0, CHR 0x81]"

definition sample_pandas :: "int pandas" where
  "sample_pandas =
     \<lparr>parse_num = map_of [(''10'', 10), (''12'', 12)],
      num_cast = (\<lambda>n. n),
      parse_ts = map_of [(''2024-01-05'', Some (2024, 1, 5)), (''NaT'', None)],
      num_ts = (\<lambda>n. None),
      fmt_num = (\<lambda>n. if n < 0 then CHR ''-'' # dec (nat (- n)) else dec (nat n))\<rparr>"

definition sample_frame :: "int frame" where
  "sample_frame =
     \<lparr>columns = [lbl_date, lbl_code, lbl_open, lbl_close, lbl_high, lbl_low, lbl_volume,
                 lbl_amount, lbl_amplitude, lbl_pct_change, lbl_price_change, lbl_turnover],
      rows =
        [(0, [Day (2024, 1, 2), Str ''600519'', Num 10, Num 11, Num 12, Num 9, Num 100,
              Num 1000, Num 30, Num 10, Num 1, Num 2]),
         (1, [Day (2024, 1, 3), Str ''600519'', NA, Str ''-'', NA, NA, NA,
              Num 5, NA, NA, NA, NA]),
         (2, [NA, Str ''600519'', Str ''abc'', NA, NA, NA, Str ''12'',
              NA, NA, NA, NA, NA]),
         (3, [Str ''2024-01-05'', Str ''600519'', Num 10, Num 10, Num 10, Num 10, Num 7,
              Num 70, Num 0, Num 0, Num 0, Num 1])]\<rparr>"

definition plain_frame :: "int frame" where
  "plain_frame =
     \<lparr>columns = [lbl_date, lbl_open, lbl_close, lbl_high, lbl_low, lbl_volume,
                 lbl_amount, lbl_amplitude, lbl_pct_change, lbl_price_change, lbl_turnover],
      rows =
        [(0, [Day (2024, 1, 2), Num 10, Num 11, Num 12, Num 9, Num 100,
              Num 1000, Num 30, Num 10, Num 1, Num 2]),
         (1, [Str ''2024-01-05'', Str ''10'', Num 10, Num 10, Num 10, Num 7,
              Num 70, Num 0, Num 0, Num 0, Str ''n/a''])]\<rparr>"

definition sample_env :: "int env" where
  "sample_env =
     \<lparr>pd_lib = sample_pandas,
      now_ymd = ''20240106'',
      stock_zh_a_hist =
        (\<lambda>rq. if rq_symbol rq = ''600519'' then Inr sample_frame
              else if rq_symbol rq = ''000001'' then Inr plain_frame
              else Inr \<lparr>columns = [], rows = []\<rparr>),
      program_dir = ''/opt/stockdata'',
      makedirs_fault = None,
      to_csv_fault = None\<rparr>"

definition sample_world :: "int world" where
  "sample_world = \<lparr>dirs = [''/opt/stockdata''], files = Map.empty, console = []\<rparr>"

text \<open>The sample table after lines 44 to 65.\<close>

definition sample_coerced :: "int frame" where
  "sample_coerced =
     \<lparr>columns = [''date'', lbl_code, ''open'', ''close'', ''high'', ''low'', ''volume'',
                 ''amount'', ''amplitude'', ''pct_change'', ''price_change'', ''turnover''],
      rows =
        [(0, [Str ''2024-01-02'', Str ''600519'', Num 10, Num 11, Num 12, Num 9, Num 100,
              Num 1000, Num 30, Num 10, Num 1, Num 2]),
         (1, [Str ''2024-01-03'', Str ''600519'', NA, NA, NA, NA, NA,
              Num 5, NA, NA, NA, NA]),
         (2, [NA, Str ''600519'', NA, NA, NA, NA, Num 12,
              NA, NA, NA, NA, NA]),
         (3, [Str ''2024-01-05'', Str ''600519'', Num 10, Num 10, Num 10, Num 10, Num 7,
              Num 70, Num 0, Num 0, Num 0, Num 1])]\<rparr>"

text \<open>The two sample tables after the whole normalizer.\<close>

definition sample_normalized :: "int frame" where
  "sample_normalized =
     sample_coerced\<lparr>rows := [rows sample_coerced ! 0, rows sample_coerced ! 2,
                              rows sample_coerced ! 3]\<rparr>"

definition plain_normalized :: "int frame" where
  "plain_normalized =
     \<lparr>columns = [''date'', ''open'', ''close'', ''high'', ''low'', ''volume'',
                 ''amount'', ''amplitude'', ''pct_change'', ''price_change'', ''turnover''],
      rows =
        [(0, [Str ''2024-01-02'', Num 10, Num 11, Num 12, Num 9, Num 100,
              Num 1000, Num 30, Num 10, Num 1, Num 2]),
         (1, [Str ''2024-01-05'', Num 10, Num 10, Num 10, Num 10, Num 7,
              Num 70, Num 0, Num 0, Num 0, NA])]\<rparr>"

text \<open>The records the sample run writes for the twelve-column table, and three
  environments with a fault: a device that is full after the header, an interrupt
  from the keyboard during the fetch, and a provider whose call raises.\<close>

definition sample_csv :: "string list list" where
  "sample_csv =
     [[''date'', lbl_code, ''open'', ''close'', ''high'', ''low'', ''volume'',
       ''amount'', ''amplitude'', ''pct_change'', ''price_change'', ''turnover''],
      [''2024-01-02'', ''600519'', ''10'', ''11'', ''12'', ''9'', ''100'',
       ''1000'', ''30'', ''10'', ''1'', ''2''],
      ['''', ''600519'', '''', '''', '''', '''', ''12'', '''', '''', '''', '''', ''''],
      [''2024-01-05'', ''600519'', ''10'', ''10'', ''10'', ''10'', ''7'',
       ''70'', ''0'', ''0'', ''0'', ''1'']]"

definition disk_full_env :: "int env" where
  "disk_full_env = sample_env\<lparr>to_csv_fault := Some (WriteFails 1 (OSError ''ENOSPC''))\<rparr>"

definition interrupted_env :: "int env" where
  "interrupted_env = sample_env\<lparr>stock_zh_a_hist := (\<lambda>rq. Inl KeyboardInterrupt)\<rparr>"

definition failing_env :: "int env" where
  "failing_env = sample_env\<lparr>stock_zh_a_hist := (\<lambda>rq. Inl (ProviderError ''connection reset''))\<rparr>"


section \<open>Properties of the adjustment mapper\<close>

lemma lower_char_fixed:
  "c \<notin> set upper_letters \<Longrightarrow> lower_char c = c"
  by (auto simp: lower_char_def upper_letters_def lower_letters_def)

lemma lower_fixed:
  "\<forall>c \<in> set s. c \<notin> set upper_letters \<Longrightarrow> lower s = s"
  by (simp add: lower_def lower_char_fixed map_idI)

lemma lower_literals:
  "lower ''HFQ'' = ''hfq''" "lower ''hfq'' = ''hfq''" "lower ''qfq'' = ''qfq''"
  "lower ''none'' = ''none''" "lower ''no'' = ''no''" "lower ''false'' = ''false''"
  "lower '''' = ''''"
  by (simp_all add: lower_def lower_char_def upper_letters_def lower_letters_def)

text \<open>
  C2 (as stated, refuted).  The claim sends every selector other than \<open>none\<close>, \<open>no\<close>,
  \<open>false\<close>, the empty string and \<open>hfq\<close> to \<open>qfq\<close>.  The selector \<open>HFQ\<close> is none of
  them, and line 23 lower-cases it and maps it to \<open>hfq\<close>.
\<close>

theorem adjust_mapper_upper_case_counterexample:
  "''HFQ'' \<notin> set no_adjust_words \<and> ''HFQ'' \<noteq> ''hfq'' \<and>
   ak_adjust_of ''HFQ'' = ''hfq'' \<and> ak_adjust_of ''HFQ'' \<noteq> ''qfq''"
  by (simp add: ak_adjust_of_def no_adjust_words_def lower_literals)

text \<open>
  C2 (amended).  The adjustment mapper is total, has no error path and compares without
  regard to the case of ASCII letters: the result is the empty parameter exactly when the
  lower-cased selector is \<open>none\<close>, \<open>no\<close>, \<open>false\<close> or empty, it is \<open>hfq\<close> exactly when the
  lower-cased selector is \<open>hfq\<close>, and it is \<open>qfq\<close> for every other selector.  For a
  selector without upper-case letters this is the table of the claim.
\<close>

theorem adjust_mapper_case_insensitive:
  "ak_adjust_of s \<in> {'''', ''hfq'', ''qfq''} \<and>
   (ak_adjust_of s = '''' \<longleftrightarrow> lower s \<in> set no_adjust_words) \<and>
   (ak_adjust_of s = ''hfq'' \<longleftrightarrow> lower s = ''hfq'') \<and>
   (ak_adjust_of s = ''qfq'' \<longleftrightarrow> lower s \<notin> set no_adjust_words \<and> lower s \<noteq> ''hfq'') \<and>
   ((\<forall>c \<in> set s. c \<notin> set upper_letters) \<longrightarrow>
      (s \<in> set no_adjust_words \<longrightarrow> ak_adjust_of s = '''') \<and>
      (s = ''hfq'' \<longrightarrow> ak_adjust_of s = ''hfq'') \<and>
      (s \<notin> set no_adjust_words \<and> s \<noteq> ''hfq'' \<longrightarrow> ak_adjust_of s = ''qfq''))"
proof -
  have table: "ak_adjust_of s \<in> {'''', ''hfq'', ''qfq''}"
    "ak_adjust_of s = '''' \<longleftrightarrow> lower s \<in> set no_adjust_words"
    "ak_adjust_of s = ''hfq'' \<longleftrightarrow> lower s = ''hfq''"
    "ak_adjust_of s = ''qfq'' \<longleftrightarrow> lower s \<notin> set no_adjust_words \<and> lower s \<noteq> ''hfq''"
    by (auto simp: ak_adjust_of_def no_adjust_words_def)
  have plain: "(\<forall>c \<in> set s. c \<notin> set upper_letters) \<longrightarrow>
      (s \<in> set no_adjust_words \<longrightarrow> ak_adjust_of s = '''') \<and>
      (s = ''hfq'' \<longrightarrow> ak_adjust_of s = ''hfq'') \<and>
      (s \<notin> set no_adjust_words \<and> s \<noteq> ''hfq'' \<longrightarrow> ak_adjust_of s = ''qfq'')"
  proof
    assume "\<forall>c \<in> set s. c \<notin> set upper_letters"
    then have "lower s = s" by (rule lower_fixed)
    then show "(s \<in> set no_adjust_words \<longrightarrow> ak_adjust_of s = '''') \<and>
      (s = ''hfq'' \<longrightarrow> ak_adjust_of s = ''hfq'') \<and>
      (s \<notin> set no_adjust_words \<and> s \<noteq> ''hfq'' \<longrightarrow> ak_adjust_of s = ''qfq'')"
      by (auto simp: ak_adjust_of_def no_adjust_words_def)
  qed
  from table plain show ?thesis by (intro conjI)
qed

theorem adjust_mapper_case_insensitive_witness:
  "list_all (\<lambda>c. c \<notin> set upper_letters) ''none'' \<and> ''none'' \<in> set no_adjust_words \<and>
   ak_adjust_of ''none'' = '''' \<and> ak_adjust_of ''NONE'' = '''' \<and>
   ak_adjust_of ''qfq'' = ''qfq'' \<and> ak_adjust_of ''anything'' = ''qfq''"
proof -
  have h: "\<forall>c \<in> set ''none''. c \<notin> set upper_letters"
    by (simp add: upper_letters_def)
  have m: "''none'' \<in> set no_adjust_words"
    by (simp add: no_adjust_words_def)
  have "ak_adjust_of ''none'' = ''''"
    using adjust_mapper_case_insensitive [of "''none''"] h m by blast
  moreover have "ak_adjust_of ''NONE'' = ''''" "ak_adjust_of ''qfq'' = ''qfq''"
    "ak_adjust_of ''anything'' = ''qfq''"
    by (simp_all add: ak_adjust_of_def no_adjust_words_def lower_def lower_char_def
        upper_letters_def lower_letters_def)
  ultimately show ?thesis using h m by (simp add: list_all_iff)
qed

section \<open>Facts about tables\<close>

lemma positions_mem: "j \<in> set (positions cs c) \<longleftrightarrow> j < length cs \<and> cs ! j = c"
  by (auto simp: positions_def)

lemma positions_unique:
  assumes "positions cs c = [i]"
  shows "i < length cs" "cs ! i = c" "\<And>j. j < length cs \<Longrightarrow> cs ! j = c \<Longrightarrow> j = i"
proof -
  have m: "set (positions cs c) = {i}" using assms by simp
  have "i \<in> set (positions cs c)" using m by simp
  then show "i < length cs" "cs ! i = c" by (simp_all add: positions_mem)
  fix j assume "j < length cs" "cs ! j = c"
  then have "j \<in> set (positions cs c)" by (simp add: positions_mem)
  then show "j = i" using m by simp
qed

lemma positions_Nil: "positions cs c = [] \<longleftrightarrow> c \<notin> set cs"
  by (auto simp: positions_def filter_empty_conv in_set_conv_nth)

lemma zip_map_same: "zip xs (map g xs) = map (\<lambda>x. (x, g x)) xs"
  by (induction xs) simp_all

lemma set_cell_unique:
  assumes "positions cs c = [i]"
  shows "set_cell cs c (f (r ! i)) r = map (\<lambda>(c', x). if c' = c then f x else x) (zip cs r)"
  unfolding set_cell_def
proof (rule map_cong [OF refl])
  fix p assume "p \<in> set (zip cs r)"
  then obtain j where j: "j < length cs" "j < length r" "p = (cs ! j, r ! j)"
    by (auto simp: in_set_zip)
  show "(case p of (c', x) \<Rightarrow> if c' = c then f (r ! i) else x) =
        (case p of (c', x) \<Rightarrow> if c' = c then f x else x)"
    using j positions_unique(3) [OF assms, of j] by auto
qed

lemma setitem_series:
  assumes "positions (columns df) c = [i]"
  shows "setitem df c (map f (map (\<lambda>r. snd r ! i) (rows df))) =
         df\<lparr>rows := map (\<lambda>r. (fst r, map (\<lambda>(c', x). if c' = c then f x else x)
                                         (zip (columns df) (snd r)))) (rows df)\<rparr>"
proof -
  have "c \<in> set (columns df)"
    using positions_unique(1,2) [OF assms] nth_mem by blast
  then show ?thesis
    by (simp add: setitem_def zip_map_same comp_def case_prod_beta
        set_cell_unique [OF assms, symmetric])
qed

lemma zip_map_zip:
  "zip cs (map h (zip cs r)) = map (\<lambda>p. (fst p, h p)) (zip cs r)"
  by (induction cs r rule: list_induct2') simp_all

lemma sequence_exn_Inr:
  "sequence_exn xs = Inr ys \<Longrightarrow> xs = map Inr ys"
  by (induction xs arbitrary: ys) (auto split: sum.splits)

lemma to_datetime_text:
  assumes "sequence_exn (map (to_datetime_cell pd) xs) = Inr ts"
  shows "map dt_strftime ts = map (date_text pd) xs"
proof -
  have "map (to_datetime_cell pd) xs = map Inr ts" using assms by (rule sequence_exn_Inr)
  then have "map (\<lambda>x. case x of Inl e \<Rightarrow> NA | Inr t \<Rightarrow> dt_strftime t) (map (to_datetime_cell pd) xs)
           = map (\<lambda>x. case x of Inl e \<Rightarrow> NA | Inr t \<Rightarrow> dt_strftime t) (map Inr ts)" by simp
  then have "map (\<lambda>x. case to_datetime_cell pd x of Inl e \<Rightarrow> NA | Inr t \<Rightarrow> dt_strftime t) xs
           = map dt_strftime ts" by (simp add: comp_def)
  then show ?thesis unfolding date_text_def by (rule sym)
qed


lemma getitem_Series:
  assumes "getitem df c = Inr (Series xs)"
  shows "\<exists>i. positions (columns df) c = [i] \<and> xs = map (\<lambda>r. snd r ! i) (rows df)"
  using assms by (auto simp: getitem_def split: list.splits)

lemma to_numeric_coerce_Inr:
  assumes "to_numeric_coerce pd sel = Inr vs"
  shows "\<exists>xs. sel = Series xs \<and> vs = map (to_numeric_cell pd) xs"
  using assms by (auto simp: to_numeric_coerce_def split: selection.splits)

lemma to_datetime_Inr:
  assumes "to_datetime pd sel = Inr ts"
  shows "\<exists>xs. sel = Series xs \<and> sequence_exn (map (to_datetime_cell pd) xs) = Inr ts"
  using assms by (auto simp: to_datetime_def split: selection.splits)

lemma distinct_numeric_cols: "distinct numeric_cols"
  by (simp add: numeric_cols_def)

lemma wf_frame_rows_update:
  assumes "wf_frame df"
  shows "wf_frame (df\<lparr>rows := map (\<lambda>r. (fst r, map h (zip (columns df) (snd r)))) (rows df)\<rparr>)"
  using assms by (simp add: wf_frame_def list_all_iff)

lemma map_snd_zip_wf:
  "length r = length cs \<Longrightarrow> map snd (zip cs r) = r"
  by (simp add: map_snd_zip)

lemma coerce_numeric_cols_rows:
  assumes "wf_frame df" "coerce_numeric_cols pd cols df = Inr df'" "distinct cols"
  shows "columns df' = columns df \<and>
         rows df' = map (\<lambda>r. (fst r, map (\<lambda>p. if fst p \<in> set cols then to_numeric_cell pd (snd p) else snd p)
                                       (zip (columns df) (snd r)))) (rows df)"
  using assms
proof (induction cols arbitrary: df)
  case Nil
  then have "df' = df" by simp
  moreover have "map (\<lambda>r. (fst r, map snd (zip (columns df) (snd r)))) (rows df) = rows df"
    using Nil.prems(1) by (simp add: wf_frame_def list_all_iff map_idI)
  ultimately show ?case by simp
next
  case (Cons col cols)
  from Cons.prems(2) obtain sel vs where
    g: "getitem df col = Inr sel" and t: "to_numeric_coerce pd sel = Inr vs"
    and rest: "coerce_numeric_cols pd cols (setitem df col vs) = Inr df'"
    by (auto split: sum.splits)
  from to_numeric_coerce_Inr [OF t] obtain xs where
    sel: "sel = Series xs" and vs: "vs = map (to_numeric_cell pd) xs" by blast
  from getitem_Series [OF g [unfolded sel]] obtain i where
    pos: "positions (columns df) col = [i]" and xs: "xs = map (\<lambda>r. snd r ! i) (rows df)" by blast
  let ?h1 = "\<lambda>p. if fst p = col then to_numeric_cell pd (snd p) else snd p"
  let ?df1 = "df\<lparr>rows := map (\<lambda>r. (fst r, map ?h1 (zip (columns df) (snd r)))) (rows df)\<rparr>"
  have s1: "setitem df col vs = ?df1"
    unfolding vs xs using setitem_series [OF pos, of "to_numeric_cell pd"]
    by (simp add: case_prod_beta)
  have wf1: "wf_frame ?df1" by (rule wf_frame_rows_update [OF Cons.prems(1)])
  have fresh: "col \<notin> set cols" and dist: "distinct cols"
    using Cons.prems(3) by simp_all
  from Cons.IH [OF wf1 rest [unfolded s1] dist]
  have c: "columns df' = columns df"
    and r: "rows df' = map (\<lambda>r. (fst r, map (\<lambda>p. if fst p \<in> set cols then to_numeric_cell pd (snd p) else snd p)
                   (zip (columns df) (snd r)))) (rows ?df1)"
    by simp_all
  have "rows df' = map (\<lambda>r. (fst r, map (\<lambda>p. if fst p \<in> set (col # cols) then to_numeric_cell pd (snd p) else snd p)
                   (zip (columns df) (snd r)))) (rows df)"
    unfolding r using fresh by (auto simp: comp_def zip_map_zip)
  with c show ?case by simp
qed


lemma columns_setitem [simp]:
  "c \<in> set (columns df) \<Longrightarrow> columns (setitem df c vs) = columns df"
  by (simp add: setitem_def)

lemma date_not_numeric: "''date'' \<notin> set numeric_cols"
  by (simp add: numeric_cols_def)

lemma coerce_frame_rows:
  assumes wf: "wf_frame df0" and ok: "coerce_frame pd df0 = Inr df3"
  shows "columns df3 = map (rename_label rename_table) (columns df0)"
    and "rows df3 = map (norm_row pd (columns df3)) (rows df0)"
proof -
  let ?df1 = "rename_columns rename_table df0"
  let ?cs = "map (rename_label rename_table) (columns df0)"
  have c1: "columns ?df1 = ?cs" and r1: "rows ?df1 = rows df0"
    by (simp_all add: rename_columns_def)
  have wf1: "wf_frame ?df1" using wf by (simp add: wf_frame_def rename_columns_def)
  from ok obtain sel ts where
    g: "getitem ?df1 ''date'' = Inr sel" and t: "to_datetime pd sel = Inr ts"
    and rest: "coerce_numeric_cols pd numeric_cols (setitem ?df1 ''date'' (map dt_strftime ts)) = Inr df3"
    by (auto simp: coerce_frame_def Let_def split: sum.splits)
  from to_datetime_Inr [OF t] obtain xs where
    sel: "sel = Series xs" and sq: "sequence_exn (map (to_datetime_cell pd) xs) = Inr ts" by blast
  from getitem_Series [OF g [unfolded sel]] obtain i where
    pos: "positions (columns ?df1) ''date'' = [i]" and xs: "xs = map (\<lambda>r. snd r ! i) (rows ?df1)"
    by blast
  let ?h1 = "\<lambda>p. if fst p = ''date'' then date_text pd (snd p) else snd p"
  let ?df2 = "?df1\<lparr>rows := map (\<lambda>r. (fst r, map ?h1 (zip (columns ?df1) (snd r)))) (rows ?df1)\<rparr>"
  have s2: "setitem ?df1 ''date'' (map dt_strftime ts) = ?df2"
    unfolding to_datetime_text [OF sq] xs using setitem_series [OF pos, of "date_text pd"]
    by (simp add: case_prod_beta)
  have wf2: "wf_frame ?df2" by (rule wf_frame_rows_update [OF wf1])
  from coerce_numeric_cols_rows [OF wf2 rest [unfolded s2] distinct_numeric_cols]
  have c3: "columns df3 = columns ?df2"
    and r3: "rows df3 = map (\<lambda>r. (fst r, map (\<lambda>p. if fst p \<in> set numeric_cols then to_numeric_cell pd (snd p) else snd p)
                   (zip (columns ?df2) (snd r)))) (rows ?df2)"
    by simp_all
  show cols: "columns df3 = ?cs" using c3 c1 by simp
  have "rows df3 = map (\<lambda>r. (fst r, map (\<lambda>p. norm_cell pd (fst p) (snd p)) (zip ?cs (snd r)))) (rows df0)"
    unfolding r3 using date_not_numeric
    by (auto simp: c1 r1 comp_def zip_map_zip norm_cell_def intro!: map_cong)
  then show "rows df3 = map (norm_row pd (columns df3)) (rows df0)"
    unfolding cols by (simp add: norm_row_def [abs_def] case_prod_beta)
qed

lemma positions_snoc:
  "positions (cs @ [x]) c = positions cs c @ (if x = c then [length cs] else [])"
proof -
  have "filter (\<lambda>i. (cs @ [x]) ! i = c) [0..<length cs] = filter (\<lambda>i. cs ! i = c) [0..<length cs]"
    by (rule filter_cong) (simp_all add: nth_append)
  then show ?thesis by (simp add: positions_def)
qed

lemma positions_empty: "positions [] c = []"
  by (simp add: positions_def)

lemma length_positions: "length (positions cs c) = count_list cs c"
  by (induction cs rule: rev_induct) (simp_all add: positions_snoc positions_empty)

lemma count_one_positions:
  "count_list cs c = 1 \<longleftrightarrow> (\<exists>i. positions cs c = [i])"
proof -
  have "length (positions cs c) = 1 \<longleftrightarrow> (\<exists>i. positions cs c = [i])"
    by (cases "positions cs c") auto
  then show ?thesis by (simp add: length_positions)
qed


lemma sequence_exn_map_Inr: "sequence_exn (map Inr ys) = Inr ys"
  by (induction ys) simp_all

lemma field_unique:
  assumes pos: "positions cs c = [i]" and len: "length r = length cs"
  shows "field cs r c = Some (r ! i)"
proof -
  have i: "i < length cs" "cs ! i = c" using positions_unique(1,2) [OF pos] by simp_all
  then have "(c, r ! i) \<in> set (zip cs r)"
    unfolding in_set_zip using len by (intro exI [of _ i]) simp
  then obtain x where x: "map_of (zip cs r) c = Some x"
    using weak_map_of_SomeI [of c "r ! i" "zip cs r"] by blast
  then have "(c, x) \<in> set (zip cs r)" by (rule map_of_SomeD)
  then obtain j where "j < length cs" "cs ! j = c" "r ! j = x"
    by (auto simp: in_set_zip)
  then have "x = r ! i" using positions_unique(3) [OF pos, of j] by simp
  with x show ?thesis by (simp add: field_def)
qed

lemma all_na_iff:
  assumes len: "length r = length cs"
    and uniq: "\<forall>c \<in> set keys. count_list cs c = 1"
  shows "all_na keys cs r \<longleftrightarrow> (\<forall>c \<in> set keys. field cs r c = Some NA)"
proof
  assume a: "all_na keys cs r"
  show "\<forall>c \<in> set keys. field cs r c = Some NA"
  proof
    fix c assume c: "c \<in> set keys"
    then obtain i where pos: "positions cs c = [i]"
      using uniq count_one_positions by blast
    have "i < length cs" "cs ! i = c" using positions_unique(1,2) [OF pos] by simp_all
    then have "(c, r ! i) \<in> set (zip cs r)"
      unfolding in_set_zip using len by (intro exI [of _ i]) simp
    then have "r ! i = NA" using a c by (auto simp: all_na_def list_all_iff)
    then show "field cs r c = Some NA" using field_unique [OF pos len] by simp
  qed
next
  assume f: "\<forall>c \<in> set keys. field cs r c = Some NA"
  show "all_na keys cs r"
    unfolding all_na_def list_all_iff
  proof (clarify)
    fix c v assume cv: "(c, v) \<in> set (zip cs r)" and c: "c \<in> set keys"
    then obtain i where pos: "positions cs c = [i]"
      using uniq count_one_positions by blast
    from cv obtain j where "j < length cs" "cs ! j = c" "r ! j = v"
      by (auto simp: in_set_zip)
    then have "v = r ! i" using positions_unique(3) [OF pos, of j] by simp
    then show "v = NA" using f c field_unique [OF pos len] by simp
  qed
qed

lemma has_essential_iff:
  assumes len: "length r = length cs"
    and uniq: "\<forall>c \<in> set essential_cols. count_list cs c = 1"
  shows "has_essential cs r \<longleftrightarrow> \<not> all_na essential_cols cs r"
proof -
  have some: "\<exists>v. field cs r c = Some v" if "c \<in> set essential_cols" for c
  proof -
    have "count_list cs c = 1" using that uniq by simp
    then obtain i where pos: "positions cs c = [i]"
      unfolding count_one_positions by blast
    show ?thesis using field_unique [OF pos len] by simp
  qed
  have hv: "has_value cs r c \<longleftrightarrow> field cs r c \<noteq> Some NA" if "c \<in> set essential_cols" for c
    using some [OF that] by (auto simp: has_value_def)
  have "has_essential cs r \<longleftrightarrow> (\<exists>c \<in> set essential_cols. field cs r c \<noteq> Some NA)"
    unfolding has_essential_def list_ex_iff by (simp add: hv)
  also have "\<dots> \<longleftrightarrow> \<not> all_na essential_cols cs r"
    unfolding all_na_iff [OF len uniq] by simp
  finally show ?thesis .
qed

lemma positions_single_mem: "positions cs c = [i] \<Longrightarrow> c \<in> set cs"
  using positions_unique(1,2) [of cs c i] nth_mem [of i cs] by simp

lemma coerce_numeric_cols_unique:
  assumes "coerce_numeric_cols pd cols df = Inr df'"
  shows "\<forall>c \<in> set cols. count_list (columns df) c = 1"
  using assms
proof (induction cols arbitrary: df)
  case Nil
  show ?case by simp
next
  case (Cons col cols)
  from Cons.prems obtain sel vs where
    g: "getitem df col = Inr sel" and t: "to_numeric_coerce pd sel = Inr vs"
    and rest: "coerce_numeric_cols pd cols (setitem df col vs) = Inr df'"
    by (auto split: sum.splits)
  from to_numeric_coerce_Inr [OF t] obtain xs where sel: "sel = Series xs" by blast
  from getitem_Series [OF g [unfolded sel]] obtain i where
    pos: "positions (columns df) col = [i]" by blast
  then have one: "count_list (columns df) col = 1"
    unfolding count_one_positions by blast
  have "col \<in> set (columns df)"
    by (rule positions_single_mem [OF pos])
  then have "columns (setitem df col vs) = columns df" by simp
  with Cons.IH [OF rest] have "\<forall>c \<in> set cols. count_list (columns df) c = 1" by simp
  with one show ?case by simp
qed

lemma coerce_frame_unique:
  assumes "coerce_frame pd df0 = Inr df3"
  shows "count_list (map (rename_label rename_table) (columns df0)) ''date'' = 1"
    and "\<forall>c \<in> set numeric_cols. count_list (map (rename_label rename_table) (columns df0)) c = 1"
proof -
  let ?df1 = "rename_columns rename_table df0"
  have c1: "columns ?df1 = map (rename_label rename_table) (columns df0)"
    by (simp add: rename_columns_def)
  from assms obtain sel ts where
    g: "getitem ?df1 ''date'' = Inr sel" and t: "to_datetime pd sel = Inr ts"
    and rest: "coerce_numeric_cols pd numeric_cols (setitem ?df1 ''date'' (map dt_strftime ts)) = Inr df3"
    by (auto simp: coerce_frame_def Let_def split: sum.splits)
  from to_datetime_Inr [OF t] obtain xs where sel: "sel = Series xs" by blast
  from getitem_Series [OF g [unfolded sel]] obtain i where
    pos: "positions (columns ?df1) ''date'' = [i]" by blast
  then have "\<exists>i. positions (columns ?df1) ''date'' = [i]" by (rule exI)
  then show "count_list (map (rename_label rename_table) (columns df0)) ''date'' = 1"
    unfolding count_one_positions c1 .
  have "''date'' \<in> set (columns ?df1)"
    by (rule positions_single_mem [OF pos])
  then have "columns (setitem ?df1 ''date'' (map dt_strftime ts)) = columns ?df1" by simp
  with coerce_numeric_cols_unique [OF rest] c1
  show "\<forall>c \<in> set numeric_cols. count_list (map (rename_label rename_table) (columns df0)) c = 1"
    by simp
qed

lemma essential_numeric: "set essential_cols \<subseteq> set numeric_cols"
  by (simp add: essential_cols_def numeric_cols_def)

lemma coerce_frame_wf:
  assumes wf: "wf_frame df0" and ok: "coerce_frame pd df0 = Inr df3"
  shows "wf_frame df3"
  using wf coerce_frame_rows [OF wf ok]
  by (simp add: wf_frame_def list_all_iff norm_row_def)

lemma count_one_mem: "count_list cs c = 1 \<Longrightarrow> c \<in> set cs"
  using count_list_0_iff [of cs c] by auto

lemma dropna_all_Inr:
  assumes "\<forall>c \<in> set keys. c \<in> set (columns df)"
  shows "dropna_all keys df =
         Inr (df\<lparr>rows := filter (\<lambda>r. \<not> all_na keys (columns df) (snd r)) (rows df)\<rparr>)"
proof -
  have "filter (\<lambda>c. c \<notin> set (columns df)) keys = []"
    using assms by (simp add: filter_empty_conv)
  then show ?thesis by (simp add: dropna_all_def)
qed

lemma normalize_rows:
  assumes wf: "wf_frame df0" and ok: "coerce_frame pd df0 = Inr df3"
  shows "normalize pd df0 =
         Inr (df3\<lparr>rows := filter (\<lambda>r. has_essential (columns df3) (snd r)) (rows df3)\<rparr>)"
proof -
  have cols: "columns df3 = map (rename_label rename_table) (columns df0)"
    by (rule coerce_frame_rows(1) [OF wf ok])
  have uniq: "\<forall>c \<in> set essential_cols. count_list (columns df3) c = 1"
  proof
    fix c assume "c \<in> set essential_cols"
    then have "c \<in> set numeric_cols" using essential_numeric by (rule subsetD [rotated])
    then show "count_list (columns df3) c = 1"
      using coerce_frame_unique(2) [OF ok] unfolding cols by (rule bspec [rotated])
  qed
  have mem: "\<forall>c \<in> set essential_cols. c \<in> set (columns df3)"
  proof
    fix c assume "c \<in> set essential_cols"
    then have "count_list (columns df3) c = 1" using uniq by (rule bspec [rotated])
    then show "c \<in> set (columns df3)" by (rule count_one_mem)
  qed
  have wf3: "wf_frame df3" by (rule coerce_frame_wf [OF wf ok])
  have "filter (\<lambda>r. \<not> all_na essential_cols (columns df3) (snd r)) (rows df3) =
        filter (\<lambda>r. has_essential (columns df3) (snd r)) (rows df3)"
  proof (rule filter_cong [OF refl])
    fix r assume "r \<in> set (rows df3)"
    then have "length (snd r) = length (columns df3)"
      using wf3 by (simp add: wf_frame_def list_all_iff)
    from has_essential_iff [OF this uniq]
    show "(\<not> all_na essential_cols (columns df3) (snd r)) = has_essential (columns df3) (snd r)"
      by simp
  qed
  then show ?thesis
    by (simp add: normalize_def ok dropna_all_Inr [OF mem])
qed

section \<open>The rows the normalizer drops\<close>

lemma sample_wf: "wf_frame sample_frame" "wf_frame plain_frame"
  by (simp_all add: wf_frame_def sample_frame_def plain_frame_def)

lemma all_missing_iff:
  assumes len: "length r = length cs"
    and uniq: "\<forall>c \<in> set essential_cols. count_list cs c = 1"
  shows "\<not> has_essential cs r \<longleftrightarrow> (\<forall>c \<in> set essential_cols. field cs r c = Some NA)"
  unfolding has_essential_iff [OF len uniq] all_na_iff [OF len uniq] by simp

lemma coerce_frame_essential_unique:
  assumes wf: "wf_frame df0" and ok: "coerce_frame pd df0 = Inr df3"
  shows "\<forall>c \<in> set essential_cols. count_list (columns df3) c = 1"
proof
  fix c assume "c \<in> set essential_cols"
  then have "c \<in> set numeric_cols" using essential_numeric by (rule subsetD [rotated])
  then show "count_list (columns df3) c = 1"
    using coerce_frame_unique(2) [OF ok] unfolding coerce_frame_rows(1) [OF wf ok]
    by (rule bspec [rotated])
qed

text \<open>
  C1.  When the coercion of lines 44 to 65 has produced a table, the normalizer returns
  that table with exactly the rows that have a value in at least one of \<open>open\<close>, \<open>high\<close>,
  \<open>low\<close>, \<open>close\<close>, \<open>volume\<close>, in their order; a row is left out if and only if all five
  are missing after the numeric coercion.
\<close>

theorem dropna_removes_exactly_rows_without_essential_value:
  assumes wf: "wf_frame df0" and ok: "coerce_frame pd df0 = Inr df3"
  shows "normalize pd df0 =
           Inr (df3\<lparr>rows := filter (\<lambda>r. has_essential (columns df3) (snd r)) (rows df3)\<rparr>) \<and>
         (\<forall>r \<in> set (rows df3).
            (\<not> has_essential (columns df3) (snd r)) =
            (\<forall>c \<in> set essential_cols. field (columns df3) (snd r) c = Some NA))"
proof
  show "normalize pd df0 =
        Inr (df3\<lparr>rows := filter (\<lambda>r. has_essential (columns df3) (snd r)) (rows df3)\<rparr>)"
    by (rule normalize_rows [OF wf ok])
  have wf3: "wf_frame df3" by (rule coerce_frame_wf [OF wf ok])
  show "\<forall>r \<in> set (rows df3).
            (\<not> has_essential (columns df3) (snd r)) =
            (\<forall>c \<in> set essential_cols. field (columns df3) (snd r) c = Some NA)"
  proof
    fix r assume "r \<in> set (rows df3)"
    then have "length (snd r) = length (columns df3)"
      using wf3 by (simp add: wf_frame_def list_all_iff)
    then show "(\<not> has_essential (columns df3) (snd r)) =
            (\<forall>c \<in> set essential_cols. field (columns df3) (snd r) c = Some NA)"
      using coerce_frame_essential_unique [OF wf ok] by (rule all_missing_iff)
  qed
qed

lemma sample_coerce_frame: "coerce_frame sample_pandas sample_frame = Inr sample_coerced"
  by code_simp

lemma sample_kept:
  "filter (\<lambda>r. has_essential (columns sample_coerced) (snd r)) (rows sample_coerced) =
   [rows sample_coerced ! 0, rows sample_coerced ! 2, rows sample_coerced ! 3]"
  by code_simp

theorem dropna_removes_exactly_rows_without_essential_value_witness:
  "wf_frame sample_frame \<and> coerce_frame sample_pandas sample_frame = Inr sample_coerced \<and>
   normalize sample_pandas sample_frame =
     Inr (sample_coerced\<lparr>rows := [rows sample_coerced ! 0, rows sample_coerced ! 2,
                                    rows sample_coerced ! 3]\<rparr>) \<and>
   \<not> has_essential (columns sample_coerced) (snd (rows sample_coerced ! 1)) \<and>
   list_all (\<lambda>c. field (columns sample_coerced) (snd (rows sample_coerced ! 1)) c = Some NA)
     essential_cols"
proof -
  have r1: "rows sample_coerced ! 1 \<in> set (rows sample_coerced)"
    by (simp add: sample_coerced_def)
  have ne: "\<not> has_essential (columns sample_coerced) (snd (rows sample_coerced ! 1))"
    by code_simp
  from dropna_removes_exactly_rows_without_essential_value
         [OF sample_wf(1) sample_coerce_frame]
  have n: "normalize sample_pandas sample_frame =
        Inr (sample_coerced\<lparr>rows := filter (\<lambda>r. has_essential (columns sample_coerced) (snd r))
                                          (rows sample_coerced)\<rparr>)"
    and a: "\<forall>r \<in> set (rows sample_coerced).
            (\<not> has_essential (columns sample_coerced) (snd r)) =
            (\<forall>c \<in> set essential_cols. field (columns sample_coerced) (snd r) c = Some NA)"
    by simp_all
  from a r1 ne have "\<forall>c \<in> set essential_cols.
      field (columns sample_coerced) (snd (rows sample_coerced ! 1)) c = Some NA"
    by (simp del: list.simps)
  then show ?thesis
    using n ne sample_wf(1) sample_coerce_frame unfolding sample_kept
    by (simp add: list_all_iff)
qed

section \<open>The numeric coercion\<close>

lemma map_of_map_keyed:
  "map_of (map (\<lambda>p. (fst p, h p)) xs) k = map_option (\<lambda>v. h (k, v)) (map_of xs k)"
  by (induction xs) auto

lemma field_map:
  "field cs (map h (zip cs r)) c = map_option (\<lambda>v. h (c, v)) (field cs r c)"
  by (simp add: field_def zip_map_zip map_of_map_keyed)

lemma field_norm_row:
  "field cs (snd (norm_row pd cs r)) c = map_option (norm_cell pd c) (field cs (snd r) c)"
  by (simp add: norm_row_def field_map case_prod_beta)








section \<open>The text of a date and its order\<close>

lemma digit_codes: "list_all (\<lambda>k. of_char (digit_chars ! k) = (48 + k :: nat)) [0..<10]"
  by code_simp

lemma of_char_digit: "of_char (digit n) = (48 + n mod 10 :: nat)"
proof -
  have "n mod 10 \<in> set [0..<10]" by simp
  then show ?thesis
    using digit_codes unfolding list_all_iff digit_def by (rule bspec [rotated])
qed

lemma digit_less_iff: "digit a < digit b \<longleftrightarrow> a mod 10 < b mod 10"
  by (simp add: less_char_def of_char_digit)

lemma digit_eq_iff: "digit a = digit b \<longleftrightarrow> a mod 10 = b mod 10"
proof -
  have "digit a = digit b \<longleftrightarrow> (of_char (digit a) :: nat) = of_char (digit b)"
    by simp
  then show ?thesis by (simp only: of_char_digit add_left_cancel)
qed

lemma lex_pair_order:
  fixes a b a' b' :: nat
  assumes "b < k" "b' < k"
  shows "(a < a' \<or> a = a' \<and> (b < b' \<or> b = b' \<and> P)) =
         (k * a + b < k * a' + b' \<or> k * a + b = k * a' + b' \<and> P)"
proof (cases "a = a'")
  case True
  then show ?thesis by auto
next
  case False
  then consider "a < a'" | "a' < a" by linarith
  then show ?thesis
  proof cases
    case 1
    then have "k * (a + 1) \<le> k * a'" by (intro mult_le_mono2) simp
    then have "k * a + b < k * a' + b'" using assms by (simp add: algebra_simps)
    with 1 show ?thesis by simp
  next
    case 2
    then have "k * (a' + 1) \<le> k * a" by (intro mult_le_mono2) simp
    then have "k * a' + b' < k * a + b" using assms by (simp add: algebra_simps)
    with 2 show ?thesis by simp
  qed
qed

lemma dec2_append_le:
  assumes "m < 100" "m' < 100"
  shows "(dec2 m @ s \<le> dec2 m' @ t) = (m < m' \<or> m = m' \<and> s \<le> t)"
proof -
  have d: "m div 10 mod 10 = m div 10" "m' div 10 mod 10 = m' div 10"
    using assms by simp_all
  have "(dec2 m @ s \<le> dec2 m' @ t) =
        (m div 10 < m' div 10 \<or> m div 10 = m' div 10 \<and>
           (m mod 10 < m' mod 10 \<or> m mod 10 = m' mod 10 \<and> s \<le> t))"
    unfolding dec2_def by (simp add: digit_less_iff digit_eq_iff d)
  also have "\<dots> = (10 * (m div 10) + m mod 10 < 10 * (m' div 10) + m' mod 10 \<or>
                  10 * (m div 10) + m mod 10 = 10 * (m' div 10) + m' mod 10 \<and> s \<le> t)"
    by (rule lex_pair_order) simp_all
  finally show ?thesis by simp
qed

lemma dec4_split: "dec4 y = dec2 (y div 100) @ dec2 (y mod 100)"
proof -
  have "y div 100 div 10 = y div 1000" by (simp add: div_mult2_eq [symmetric])
  moreover have "y mod 100 div 10 mod 10 = y div 10 mod 10"
  proof -
    define q r where "q = y div 100" and "r = y mod 100"
    have "y = 100 * q + r" by (simp add: q_def r_def)
    then have "y div 10 = 10 * q + r div 10" by arith
    then show ?thesis by (simp add: r_def)
  qed
  moreover have "y mod 100 mod 10 = y mod 10"
    by (simp add: mod_mod_cancel)
  ultimately show ?thesis
    by (simp add: dec4_def dec2_def digit_eq_iff)
qed

lemma dec4_append_le:
  assumes "y < 10000" "y' < 10000"
  shows "(dec4 y @ s \<le> dec4 y' @ t) = (y < y' \<or> y = y' \<and> s \<le> t)"
proof -
  have hi: "y div 100 < 100" "y' div 100 < 100" using assms by simp_all
  have lo: "y mod 100 < 100" "y' mod 100 < 100" by simp_all
  have "(dec4 y @ s \<le> dec4 y' @ t) =
        (y div 100 < y' div 100 \<or> y div 100 = y' div 100 \<and>
           (y mod 100 < y' mod 100 \<or> y mod 100 = y' mod 100 \<and> s \<le> t))"
    by (simp add: dec4_split dec2_append_le [OF hi] dec2_append_le [OF lo])
  also have "\<dots> = (100 * (y div 100) + y mod 100 < 100 * (y' div 100) + y' mod 100 \<or>
                  100 * (y div 100) + y mod 100 = 100 * (y' div 100) + y' mod 100 \<and> s \<le> t)"
    by (rule lex_pair_order) simp_all
  finally show ?thesis by simp
qed

lemma in_bounds_small:
  assumes "in_bounds (y, m, d)"
  shows "y < 10000" "m < 100" "d < 100"
proof -
  from assms have "y \<le> 2262" "m \<le> 12" "d \<le> days_in_month y m"
    by (auto simp: in_bounds_def)
  moreover have "days_in_month y m \<le> 31" by (simp add: days_in_month_def)
  ultimately show "y < 10000" "m < 100" "d < 100" by simp_all
qed

lemma strftime_ymd_le:
  assumes "in_bounds a" "in_bounds b"
  shows "strftime_ymd a \<le> strftime_ymd b \<longleftrightarrow> date_le a b"
proof -
  obtain y m d where a: "a = (y, m, d)" by (cases a) auto
  obtain y' m' d' where b: "b = (y', m', d')" by (cases b) auto
  note sa = in_bounds_small [OF assms(1) [unfolded a]]
  note sb = in_bounds_small [OF assms(2) [unfolded b]]
  have "dec2 d \<le> dec2 d' \<longleftrightarrow> d \<le> d'"
    using dec2_append_le [OF sa(3) sb(3), of "[]" "[]"] by auto
  then show ?thesis
    unfolding a b
    by (simp add: dec4_append_le [OF sa(1) sb(1)] dec2_append_le [OF sa(2) sb(2)])
qed

lemma is_digit_digit: "is_digit (digit n)"
proof -
  have "n mod 10 < length digit_chars" by (simp add: digit_chars_def)
  then show ?thesis unfolding is_digit_def digit_def by (rule nth_mem)
qed

lemma is_yyyy_mm_dd_strftime: "is_yyyy_mm_dd (strftime_ymd dt)"
  by (cases dt) (simp add: dec4_def dec2_def is_digit_digit)

lemma checked_ts_Some: "checked_ts a = Inr (Some dt) \<Longrightarrow> in_bounds dt"
  by (auto simp: checked_ts_def split: if_splits)

lemma to_datetime_cell_in_bounds:
  assumes "to_datetime_cell pd x = Inr (Some dt)"
  shows "in_bounds dt"
  using assms
  by (cases x) (auto dest: checked_ts_Some split: option.splits)

section \<open>The order of the rows\<close>

lemma normalize_Inr:
  assumes wf: "wf_frame df0" and ok: "normalize pd df0 = Inr df'"
  shows "columns df' = map (rename_label rename_table) (columns df0)"
    and "rows df' = filter (\<lambda>r. has_essential (columns df') (snd r))
                      (map (norm_row pd (columns df')) (rows df0))"
proof -
  from ok obtain df3 where c: "coerce_frame pd df0 = Inr df3"
    by (auto simp: normalize_def split: sum.splits)
  from normalize_rows [OF wf c] ok
  have d: "df' = df3\<lparr>rows := filter (\<lambda>r. has_essential (columns df3) (snd r)) (rows df3)\<rparr>"
    by simp
  have cols: "columns df' = columns df3" unfolding d by simp
  show "columns df' = map (rename_label rename_table) (columns df0)"
    unfolding cols by (rule coerce_frame_rows(1) [OF wf c])
  have "rows df' = filter (\<lambda>r. has_essential (columns df3) (snd r)) (rows df3)"
    unfolding d by simp
  then show "rows df' = filter (\<lambda>r. has_essential (columns df') (snd r))
                      (map (norm_row pd (columns df')) (rows df0))"
    unfolding cols coerce_frame_rows(2) [OF wf c, symmetric] .
qed

lemma output_date_norm_row:
  assumes "input_day pd cs r = Some dt"
  shows "output_date cs (norm_row pd cs r) = Some (strftime_ymd dt)" and "in_bounds dt"
proof -
  from assms obtain x where x: "field cs (snd r) ''date'' = Some x"
    and t: "to_datetime_cell pd x = Inr (Some dt)"
    by (auto simp: input_day_def split: option.splits sum.splits)
  show "in_bounds dt" by (rule to_datetime_cell_in_bounds [OF t])
  have "field cs (snd (norm_row pd cs r)) ''date'' = Some (Str (strftime_ymd dt))"
    unfolding field_norm_row x by (simp add: norm_cell_def date_text_def t)
  then show "output_date cs (norm_row pd cs r) = Some (strftime_ymd dt)"
    by (simp add: output_date_def)
qed

lemma day_le_text_le:
  assumes "day_le (input_day pd cs r1) (input_day pd cs r2)"
  shows "text_le (output_date cs (norm_row pd cs r1)) (output_date cs (norm_row pd cs r2))"
proof -
  from assms obtain a b where a: "input_day pd cs r1 = Some a"
    and b: "input_day pd cs r2 = Some b" and le: "date_le a b"
    by (auto elim: day_le.elims)
  from output_date_norm_row [OF a] output_date_norm_row [OF b] le
  show ?thesis by (simp add: strftime_ymd_le)
qed

text \<open>
  C10.  The normalizer never reorders rows: the rows of its result are, in order, the
  normalized forms of a subsequence of the fetched rows, the row labels are a subsequence
  of the fetched ones, and the CSV records after the header follow the rows of the
  result.  Hence when the fetched rows are in ascending order of their days, the date
  texts of the result are in ascending order as strings.
\<close>

theorem normalizer_preserves_row_order:
  assumes wf: "wf_frame df0" and ok: "normalize pd df0 = Inr df'"
  shows "subseq (rows df') (map (norm_row pd (columns df')) (rows df0)) \<and>
         subseq (map fst (rows df')) (map fst (rows df0)) \<and>
         tl (csv_records pd False df') = map (\<lambda>r. map (fmt_cell pd) (snd r)) (rows df') \<and>
         (sorted_wrt day_le (map (input_day pd (columns df')) (rows df0)) \<longrightarrow>
          sorted_wrt text_le (map (output_date (columns df')) (rows df')))"
proof -
  let ?cs = "columns df'"
  let ?P = "\<lambda>r. has_essential ?cs (snd r)"
  note r = normalize_Inr(2) [OF wf ok]
  have s1: "subseq (rows df') (map (norm_row pd ?cs) (rows df0))"
    unfolding r by (rule subseq_filter_left)
  have "subseq (map fst (rows df')) (map fst (map (norm_row pd ?cs) (rows df0)))"
    using s1 by (rule subseq_map)
  then have s2: "subseq (map fst (rows df')) (map fst (rows df0))"
    by (simp add: comp_def norm_row_def)
  have s3: "tl (csv_records pd False df') = map (\<lambda>r. map (fmt_cell pd) (snd r)) (rows df')"
    by (simp add: csv_records_def case_prod_beta)
  have s4: "sorted_wrt text_le (map (output_date ?cs) (rows df'))"
    if asc: "sorted_wrt day_le (map (input_day pd ?cs) (rows df0))"
  proof -
    from asc have "sorted_wrt (\<lambda>r1 r2. day_le (input_day pd ?cs r1) (input_day pd ?cs r2)) (rows df0)"
      by (simp add: sorted_wrt_map)
    then have "sorted_wrt (\<lambda>r1 r2. text_le (output_date ?cs (norm_row pd ?cs r1))
                                          (output_date ?cs (norm_row pd ?cs r2))) (rows df0)"
      by (rule sorted_wrt_mono_rel [rotated]) (rule day_le_text_le)
    then have "sorted_wrt (\<lambda>r1 r2. text_le (output_date ?cs r1) (output_date ?cs r2))
                 (map (norm_row pd ?cs) (rows df0))"
      by (simp add: sorted_wrt_map)
    then have "sorted_wrt (\<lambda>r1 r2. text_le (output_date ?cs r1) (output_date ?cs r2))
                 (filter ?P (map (norm_row pd ?cs) (rows df0)))"
      by (rule sorted_wrt_filter)
    then show ?thesis
      unfolding r [symmetric] by (simp add: sorted_wrt_map)
  qed
  from s1 s2 s3 s4 show ?thesis by (intro conjI impI)
qed

lemma sample_normalize:
  "normalize sample_pandas sample_frame = Inr sample_normalized"
  "normalize sample_pandas plain_frame = Inr plain_normalized"
  by code_simp+

lemma plain_sorted:
  "sorted_wrt day_le (map (input_day sample_pandas (columns plain_normalized)) (rows plain_frame))"
  by code_simp

theorem normalizer_preserves_row_order_witness:
  "wf_frame sample_frame \<and> normalize sample_pandas sample_frame = Inr sample_normalized \<and>
   subseq (map fst (rows sample_normalized)) (map fst (rows sample_frame)) \<and>
   map fst (rows sample_normalized) = [0, 2, 3] \<and>
   wf_frame plain_frame \<and> normalize sample_pandas plain_frame = Inr plain_normalized \<and>
   sorted_wrt day_le (map (input_day sample_pandas (columns plain_normalized)) (rows plain_frame)) \<and>
   sorted_wrt text_le (map (output_date (columns plain_normalized)) (rows plain_normalized)) \<and>
   map (output_date (columns plain_normalized)) (rows plain_normalized) =
     [Some ''2024-01-02'', Some ''2024-01-05'']"
proof -
  have a: "subseq (map fst (rows sample_normalized)) (map fst (rows sample_frame))"
    using normalizer_preserves_row_order [OF sample_wf(1) sample_normalize(1)] by simp
  have b: "sorted_wrt text_le (map (output_date (columns plain_normalized)) (rows plain_normalized))"
    using normalizer_preserves_row_order [OF sample_wf(2) sample_normalize(2)] plain_sorted
    by blast
  have c: "map fst (rows sample_normalized) = [0, 2, 3]"
    "map (output_date (columns plain_normalized)) (rows plain_normalized) =
     [Some ''2024-01-02'', Some ''2024-01-05'']"
    by code_simp+
  from a b c sample_wf sample_normalize plain_sorted show ?thesis by (intro conjI)
qed

section \<open>Columns outside the rename table\<close>

lemma rename_label_unmapped:
  "c \<notin> fst ` set tbl \<Longrightarrow> rename_label tbl c = c"
  by (simp add: rename_label_def map_of_eq_None_iff [THEN iffD2])

lemma rename_targets: "snd ` set rename_table = insert ''date'' (set numeric_cols)"
  by (simp add: rename_table_def numeric_cols_def)

lemma normalize_wf:
  assumes wf: "wf_frame df0" and ok: "normalize pd df0 = Inr df'"
  shows "wf_frame df'"
proof -
  have "length (columns df') = length (columns df0)"
    unfolding normalize_Inr(1) [OF wf ok] by simp
  then show ?thesis
    using wf unfolding wf_frame_def list_all_iff
    by (subst normalize_Inr(2) [OF wf ok]) (auto simp: norm_row_def)
qed

lemma norm_row_nth:
  assumes "j < length cs" "length (snd r) = length cs"
  shows "snd (norm_row pd cs r) ! j = norm_cell pd (cs ! j) (snd r ! j)"
  using assms by (simp add: norm_row_def)

lemma norm_cell_other:
  "c \<notin> snd ` set rename_table \<Longrightarrow> norm_cell pd c x = x"
  unfolding rename_targets by (simp add: norm_cell_def)

text \<open>What the normalizer does to such a column, in the table and in the records
  that line 88 hands to the writer.\<close>

lemma unmapped_column_in_table:
  assumes wf: "wf_frame df0" and ok: "normalize pd df0 = Inr df'"
    and j: "j < length (columns df0)"
    and unmapped: "columns df0 ! j \<notin> fst ` set rename_table"
  shows "length (columns df') = length (columns df0) \<and>
         columns df' ! j = columns df0 ! j \<and>
         hd (csv_records pd False df') ! j = columns df0 ! j \<and>
         (columns df0 ! j \<notin> snd ` set rename_table \<longrightarrow>
            map (\<lambda>r. snd r ! j) (rows df') =
              map (\<lambda>r. snd r ! j)
                (filter (\<lambda>r. has_essential (columns df') (snd (norm_row pd (columns df') r)))
                   (rows df0)) \<and>
            map (\<lambda>fields. fields ! j) (tl (csv_records pd False df')) =
              map (\<lambda>r. fmt_cell pd (snd r ! j))
                (filter (\<lambda>r. has_essential (columns df') (snd (norm_row pd (columns df') r)))
                   (rows df0)))"
proof -
  let ?cs = "columns df'"
  let ?keep = "\<lambda>r. has_essential ?cs (snd (norm_row pd ?cs r))"
  note cols = normalize_Inr(1) [OF wf ok]
  note rws = normalize_Inr(2) [OF wf ok]
  have len: "length ?cs = length (columns df0)" unfolding cols by simp
  have lbl: "?cs ! j = columns df0 ! j"
    unfolding cols using j unmapped by (simp add: rename_label_unmapped)
  have hdr: "hd (csv_records pd False df') ! j = columns df0 ! j"
    using lbl by (simp add: csv_records_def)
  have kept: "rows df' = map (norm_row pd ?cs) (filter ?keep (rows df0))"
    unfolding rws [symmetric] by (subst rws) (simp add: filter_map comp_def)
  have cells: "map (\<lambda>r. snd r ! j) (rows df') = map (\<lambda>r. snd r ! j) (filter ?keep (rows df0))"
    if other: "columns df0 ! j \<notin> snd ` set rename_table"
  proof -
    have "snd (norm_row pd ?cs r) ! j = snd r ! j" if "r \<in> set (rows df0)" for r
    proof -
      have "length (snd r) = length ?cs"
        using wf that len by (simp add: wf_frame_def list_all_iff)
      from norm_row_nth [OF _ this, of j pd] j len
      have "snd (norm_row pd ?cs r) ! j = norm_cell pd (?cs ! j) (snd r ! j)" by simp
      then show ?thesis using other lbl by (simp add: norm_cell_other)
    qed
    then show ?thesis unfolding kept by (simp add: comp_def)
  qed
  have csv: "map (\<lambda>fields. fields ! j) (tl (csv_records pd False df')) =
             map (\<lambda>r. fmt_cell pd (snd r ! j)) (filter ?keep (rows df0))"
    if other: "columns df0 ! j \<notin> snd ` set rename_table"
  proof -
    have "map fmt_fields (rows df') = map (\<lambda>r. fmt_cell pd (snd r ! j)) (rows df')"
      if "fmt_fields = (\<lambda>r. map (fmt_cell pd) (snd r) ! j)" for fmt_fields
    proof (rule map_cong [OF refl])
      fix r assume "r \<in> set (rows df')"
      then have "length (snd r) = length ?cs"
        using normalize_wf [OF wf ok] by (simp add: wf_frame_def list_all_iff)
      then show "fmt_fields r = fmt_cell pd (snd r ! j)"
        using j len that by simp
    qed
    then have "map (\<lambda>fields. fields ! j) (tl (csv_records pd False df')) =
               map (fmt_cell pd) (map (\<lambda>r. snd r ! j) (rows df'))"
      by (simp add: csv_records_def case_prod_beta comp_def)
    then show ?thesis unfolding cells [OF other] by (simp add: comp_def)
  qed
  from len lbl hdr cells csv show ?thesis by (intro conjI impI)
qed


lemma sample_code_column:
  "(1::nat) < length (columns sample_frame)"
  "columns sample_frame ! 1 = lbl_code"
  "lbl_code \<notin> fst ` set rename_table"
  "lbl_code \<notin> snd ` set rename_table"
  "map (\<lambda>r. snd r ! 1)
     (filter (\<lambda>r. has_essential (columns sample_normalized)
                     (snd (norm_row sample_pandas (columns sample_normalized) r)))
        (rows sample_frame)) = [Str ''600519'', Str ''600519'', Str ''600519'']"
  by code_simp+

section \<open>Runs that write nothing\<close>

lemma print_msg_fields [simp]:
  "files (print_msg m w) = files w" "dirs (print_msg m w) = dirs w"
  "console (print_msg m w) = console w @ [m]"
  by (simp_all add: print_msg_def)

lemma os_path_exists_print_msg [simp]:
  "os_path_exists (print_msg m w) p = os_path_exists w p"
  by (simp add: os_path_exists_def)

text \<open>
  C4.  When the provider returns an empty table, the program prints the message about
  the empty result after its first line, leaves the files and the directories as they
  were, and returns normally.
\<close>

theorem empty_result_writes_nothing:
  assumes "stock_zh_a_hist ev (hist_request ev symbol (ak_adjust_of adjust_type)) = Inr df"
    and "df_empty df"
  shows "get_stock_data ev symbol adjust_type w =
           (Inr (), w\<lparr>console := console w @ [Fetching symbol adjust_type, EmptyResult symbol]\<rparr>)"
  using assms by (simp add: get_stock_data_def try_body_def print_msg_def)

theorem empty_result_writes_nothing_witness:
  "stock_zh_a_hist sample_env (hist_request sample_env ''1'' (ak_adjust_of ''qfq'')) =
     Inr \<lparr>columns = [], rows = []\<rparr> \<and>
   df_empty \<lparr>columns = [], rows = []\<rparr> \<and>
   get_stock_data sample_env ''1'' ''qfq'' sample_world =
     (Inr (), sample_world\<lparr>console := [Fetching ''1'' ''qfq'', EmptyResult ''1'']\<rparr>) \<and>
   files (snd (get_stock_data sample_env ''1'' ''qfq'' sample_world)) = files sample_world \<and>
   dirs (snd (get_stock_data sample_env ''1'' ''qfq'' sample_world)) = dirs sample_world"
proof -
  have h: "stock_zh_a_hist sample_env (hist_request sample_env ''1'' (ak_adjust_of ''qfq'')) =
     Inr \<lparr>columns = [], rows = []\<rparr>"
    by (simp add: sample_env_def hist_request_def)
  have e: "df_empty \<lparr>columns = [], rows = []\<rparr>" by (simp add: df_empty_def)
  have c: "console sample_world = []" by (simp add: sample_world_def)
  from empty_result_writes_nothing [OF h e, of sample_world]
  have r: "get_stock_data sample_env ''1'' ''qfq'' sample_world =
     (Inr (), sample_world\<lparr>console := [Fetching ''1'' ''qfq'', EmptyResult ''1'']\<rparr>)"
    by (simp add: c)
  show ?thesis using h e r by simp
qed

lemma ensure_data_dir_files:
  "ensure_data_dir ev d w = (r, w') \<Longrightarrow> files w' = files w"
  by (auto simp: ensure_data_dir_def os_makedirs_def split: if_splits option.splits)

lemma ensure_data_dir_ok:
  assumes "os_path_exists w d \<or> makedirs_fault ev = None"
  shows "\<exists>w'. ensure_data_dir ev d w = (Inr (), w') \<and> files w' = files w"
  using assms by (auto simp: ensure_data_dir_def os_makedirs_def)

lemma to_csv_ok:
  assumes "to_csv_fault ev = None"
  shows "to_csv ev df path index enc w =
         (Inr (), w\<lparr>files := (files w)(path \<mapsto> \<lparr>encoding = enc, records = csv_records (pd_lib ev) index df\<rparr>)\<rparr>)"
  using assms by (simp add: to_csv_def)

lemma to_csv_raises_files:
  assumes "to_csv ev df path index enc w = (Inl e, w')"
    and "\<forall>k x. to_csv_fault ev \<noteq> Some (WriteFails k x)"
  shows "files w' = files w"
  using assms by (auto simp: to_csv_def Let_def split: option.splits io_fault.splits)

lemma save_and_report_ok:
  assumes "os_path_exists w (data_dir_of (program_dir ev)) \<or> makedirs_fault ev = None"
    and "to_csv_fault ev = None"
  shows "\<exists>w'. save_and_report ev symbol ak df w = (Inr (), w') \<and>
           files w' = (files w)(full_file_path_of (program_dir ev) symbol ak \<mapsto>
                        \<lparr>encoding = ''utf-8'', records = csv_records (pd_lib ev) False df\<rparr>) \<and>
           Saved (full_file_path_of (program_dir ev) symbol ak) \<in> set (console w')"
proof -
  from ensure_data_dir_ok [OF assms(1)] obtain w1 where
    e: "ensure_data_dir ev (data_dir_of (program_dir ev)) w = (Inr (), w1)"
    and f: "files w1 = files w" by blast
  show ?thesis
    by (simp add: save_and_report_def e to_csv_ok [OF assms(2)] f Let_def)
qed

lemma save_and_report_raises_files:
  assumes "save_and_report ev symbol ak df w = (Inl e, w')"
    and "\<forall>k x. to_csv_fault ev \<noteq> Some (WriteFails k x)"
  shows "files w' = files w"
proof (cases "ensure_data_dir ev (data_dir_of (program_dir ev)) w")
  case (Pair r w1)
  note f1 = ensure_data_dir_files [OF Pair]
  show ?thesis
  proof (cases r)
    case (Inl e1)
    with assms(1) Pair f1 show ?thesis by (simp add: save_and_report_def)
  next
    case (Inr u)
    obtain r2 w2 where t: "to_csv ev df (full_file_path_of (program_dir ev) symbol ak) False ''utf-8'' w1 = (r2, w2)"
      by (cases "to_csv ev df (full_file_path_of (program_dir ev) symbol ak) False ''utf-8'' w1") auto
    show ?thesis
    proof (cases r2)
      case (Inl e2)
      with assms(1) Pair Inr t have "w' = w2" by (simp add: save_and_report_def)
      with to_csv_raises_files [OF t [unfolded Inl] assms(2)] f1 show ?thesis by simp
    next
      case (Inr u2)
      with assms(1) Pair \<open>r = Inr u\<close> t show ?thesis by (simp add: save_and_report_def)
    qed
  qed
qed

lemma try_body_raises_files:
  assumes "try_body ev symbol ak w = (Inl e, w')"
    and "\<forall>k x. to_csv_fault ev \<noteq> Some (WriteFails k x)"
  shows "files w' = files w"
  using assms
  by (auto simp: try_body_def dest: save_and_report_raises_files
      split: sum.splits if_splits)

lemma get_stock_data_success:
  assumes "stock_zh_a_hist ev (hist_request ev symbol (ak_adjust_of adjust_type)) = Inr df0"
    and "\<not> df_empty df0"
    and "normalize (pd_lib ev) df0 = Inr df'"
    and "os_path_exists w (data_dir_of (program_dir ev)) \<or> makedirs_fault ev = None"
    and "to_csv_fault ev = None"
  shows "\<exists>w'. get_stock_data ev symbol adjust_type w = (Inr (), w') \<and>
           files w' = (files w)(full_file_path_of (program_dir ev) symbol (ak_adjust_of adjust_type) \<mapsto>
                        \<lparr>encoding = ''utf-8'', records = csv_records (pd_lib ev) False df'\<rparr>) \<and>
           Saved (full_file_path_of (program_dir ev) symbol (ak_adjust_of adjust_type)) \<in> set (console w')"
proof -
  let ?w1 = "print_msg (Fetching symbol adjust_type) w"
  have "os_path_exists ?w1 (data_dir_of (program_dir ev)) \<or> makedirs_fault ev = None"
    using assms(4) by simp
  from save_and_report_ok [OF this assms(5), of symbol "ak_adjust_of adjust_type" df']
  obtain w' where s: "save_and_report ev symbol (ak_adjust_of adjust_type) df' ?w1 = (Inr (), w')"
    and f: "files w' = (files ?w1)(full_file_path_of (program_dir ev) symbol (ak_adjust_of adjust_type) \<mapsto>
                        \<lparr>encoding = ''utf-8'', records = csv_records (pd_lib ev) False df'\<rparr>)"
    and c: "Saved (full_file_path_of (program_dir ev) symbol (ak_adjust_of adjust_type)) \<in> set (console w')"
    by blast
  have "get_stock_data ev symbol adjust_type w = (Inr (), w')"
    by (simp add: get_stock_data_def try_body_def assms(1,2,3) s)
  with f c show ?thesis by simp
qed

text \<open>
  C5 (as stated, refuted).  With a device that is full after the header, the write of
  line 88 raises \<open>OSError\<close>; the handler prints its two lines and the function returns
  normally, but the file exists and holds the header alone.  With an interrupt from the
  keyboard during the fetch, the exception is not one the handler of line 95 takes: it
  leaves the function, and no diagnostic is printed.
\<close>

theorem failed_run_counterexample:
  "fst (get_stock_data disk_full_env ''000001'' ''qfq'' sample_world) = Inr () \<and>
   console (snd (get_stock_data disk_full_env ''000001'' ''qfq'' sample_world)) =
     [Fetching ''000001'' ''qfq'', CreatedDir ''/opt/stockdata/A_data'',
      ExceptionMsg (OSError ''ENOSPC''), Traceback (OSError ''ENOSPC'')] \<and>
   files sample_world ''/opt/stockdata/A_data/000001_qfq_A_data.csv'' = None \<and>
   files (snd (get_stock_data disk_full_env ''000001'' ''qfq'' sample_world))
     ''/opt/stockdata/A_data/000001_qfq_A_data.csv'' =
     Some \<lparr>encoding = ''utf-8'', records = [columns plain_normalized]\<rparr> \<and>
   fst (get_stock_data interrupted_env ''000001'' ''qfq'' sample_world) = Inl KeyboardInterrupt \<and>
   console (snd (get_stock_data interrupted_env ''000001'' ''qfq'' sample_world)) =
     [Fetching ''000001'' ''qfq'']"
  by code_simp

text \<open>
  C5 (amended).  When the body of the \<open>try\<close> statement raises an exception that derives
  from \<open>Exception\<close>, the function catches it, prints the message and the trace after
  what was printed before, and returns normally.  Unless the write of the CSV failed
  after the file had been opened, the files are those from before the run.
\<close>

theorem exception_is_caught_and_reported:
  assumes "try_body ev symbol (ak_adjust_of adjust_type)
             (print_msg (Fetching symbol adjust_type) w) = (Inl e, w1)"
    and "is_Exception e"
  shows "get_stock_data ev symbol adjust_type w =
           (Inr (), w1\<lparr>console := console w1 @ [ExceptionMsg e, Traceback e]\<rparr>) \<and>
         ((\<forall>k x. to_csv_fault ev \<noteq> Some (WriteFails k x)) \<longrightarrow>
            files (snd (get_stock_data ev symbol adjust_type w)) = files w)"
proof -
  have r: "get_stock_data ev symbol adjust_type w =
           (Inr (), w1\<lparr>console := console w1 @ [ExceptionMsg e, Traceback e]\<rparr>)"
    using assms by (simp add: get_stock_data_def print_msg_def)
  have "files w1 = files w" if "\<forall>k x. to_csv_fault ev \<noteq> Some (WriteFails k x)"
    using try_body_raises_files [OF assms(1) that] by simp
  with r show ?thesis by simp
qed

theorem exception_is_caught_and_reported_witness:
  "try_body failing_env ''000001'' (ak_adjust_of ''qfq'')
     (print_msg (Fetching ''000001'' ''qfq'') sample_world) =
     (Inl (ProviderError ''connection reset''),
      print_msg (Fetching ''000001'' ''qfq'') sample_world) \<and>
   is_Exception (ProviderError ''connection reset'') \<and>
   to_csv_fault failing_env = None \<and>
   fst (get_stock_data failing_env ''000001'' ''qfq'' sample_world) = Inr () \<and>
   console (snd (get_stock_data failing_env ''000001'' ''qfq'' sample_world)) =
     [Fetching ''000001'' ''qfq'', ExceptionMsg (ProviderError ''connection reset''),
      Traceback (ProviderError ''connection reset'')] \<and>
   files (snd (get_stock_data failing_env ''000001'' ''qfq'' sample_world)) = files sample_world"
proof -
  let ?w1 = "print_msg (Fetching ''000001'' ''qfq'') sample_world"
  let ?e = "ProviderError ''connection reset''"
  have t: "try_body failing_env ''000001'' (ak_adjust_of ''qfq'') ?w1 = (Inl ?e, ?w1)"
    by (simp add: try_body_def failing_env_def)
  have i: "is_Exception ?e" by simp
  have n: "to_csv_fault failing_env = None"
    by (simp add: failing_env_def sample_env_def)
  from exception_is_caught_and_reported [OF t i] n
  have g: "get_stock_data failing_env ''000001'' ''qfq'' sample_world =
           (Inr (), ?w1\<lparr>console := console ?w1 @ [ExceptionMsg ?e, Traceback ?e]\<rparr>)"
    and f: "files (snd (get_stock_data failing_env ''000001'' ''qfq'' sample_world)) =
            files sample_world"
    by simp_all
  have c: "console sample_world = []"
    by (simp add: sample_world_def)
  show ?thesis using t i n f by (simp add: g c)
qed

section \<open>The path of the output file\<close>

lemma os_path_join_plain:
  assumes "a \<noteq> []" "last a \<noteq> CHR ''/''" "b = [] \<or> hd b \<noteq> CHR ''/''"
  shows "os_path_join a b = a @ ''/'' @ b"
  using assms by (auto simp: os_path_join_def)

lemma adj_suffix_of_ak_adjust:
  "adj_suffix_of (ak_adjust_of adjust_type) =
     (if lower adjust_type \<in> set no_adjust_words then ''no_adj''
      else if lower adjust_type = ''hfq'' then ''hfq'' else ''qfq'')"
  by (simp add: adj_suffix_of_def ak_adjust_of_def)

lemma full_file_path_pattern:
  assumes "program_directory \<noteq> []" "last program_directory \<noteq> CHR ''/''"
    and "symbol = [] \<or> hd symbol \<noteq> CHR ''/''"
  shows "full_file_path_of program_directory symbol ak =
         program_directory @ ''/A_data/'' @ symbol @ ''_'' @ adj_suffix_of ak @ ''_A_data.csv''"
proof -
  have d: "data_dir_of program_directory = program_directory @ ''/A_data''"
    unfolding data_dir_of_def using assms(1,2) by (simp add: os_path_join_plain)
  have f: "filename_of symbol ak = [] \<or> hd (filename_of symbol ak) \<noteq> CHR ''/''"
    using assms(3) by (cases symbol) (auto simp: filename_of_def)
  have "os_path_join (program_directory @ ''/A_data'') (filename_of symbol ak) =
        (program_directory @ ''/A_data'') @ ''/'' @ filename_of symbol ak"
    using f by (intro os_path_join_plain) simp_all
  then show ?thesis
    unfolding full_file_path_of_def d by (simp add: filename_of_def)
qed

text \<open>
  A run that succeeds writes exactly one file and prints its path.  When the symbol does
  not begin with the path separator and the program's directory does not end with it,
  the path is the program's directory, \<open>A_data\<close> and the file name
  \<open>{symbol}_{tag}_A_data.csv\<close>, with the tag \<open>no_adj\<close> when the resolved adjustment is
  empty, \<open>hfq\<close> for \<open>hfq\<close> and \<open>qfq\<close> otherwise.
\<close>

lemma successful_run_path:
  assumes "stock_zh_a_hist ev (hist_request ev symbol (ak_adjust_of adjust_type)) = Inr df0"
    and "\<not> df_empty df0"
    and "normalize (pd_lib ev) df0 = Inr df'"
    and "os_path_exists w (data_dir_of (program_dir ev)) \<or> makedirs_fault ev = None"
    and "to_csv_fault ev = None"
    and "program_dir ev \<noteq> []" and "last (program_dir ev) \<noteq> CHR ''/''"
    and "symbol = [] \<or> hd symbol \<noteq> CHR ''/''"
    and "tag = (if lower adjust_type \<in> set no_adjust_words then ''no_adj''
                else if lower adjust_type = ''hfq'' then ''hfq'' else ''qfq'')"
    and "path = program_dir ev @ ''/A_data/'' @ symbol @ ''_'' @ tag @ ''_A_data.csv''"
  shows "\<exists>w'. get_stock_data ev symbol adjust_type w = (Inr (), w') \<and>
           files w' = (files w)(path \<mapsto>
              \<lparr>encoding = ''utf-8'', records = csv_records (pd_lib ev) False df'\<rparr>) \<and>
           Saved path \<in> set (console w')"
proof -
  have "full_file_path_of (program_dir ev) symbol (ak_adjust_of adjust_type) = path"
    unfolding assms(9,10) full_file_path_pattern [OF assms(6,7,8)]
    by (simp only: adj_suffix_of_ak_adjust)
  with get_stock_data_success [OF assms(1-5)] show ?thesis by simp
qed

lemma sample_run_hyps:
  "stock_zh_a_hist sample_env (hist_request sample_env ''600519'' (ak_adjust_of ''none'')) =
     Inr sample_frame"
  "stock_zh_a_hist sample_env (hist_request sample_env ''600519'' (ak_adjust_of ''hfq'')) =
     Inr sample_frame"
  "stock_zh_a_hist sample_env (hist_request sample_env ''600519'' (ak_adjust_of ''qfq'')) =
     Inr sample_frame"
  "\<not> df_empty sample_frame"
  "os_path_exists sample_world (data_dir_of (program_dir sample_env)) \<or>
     makedirs_fault sample_env = None"
  "to_csv_fault sample_env = None"
  "pd_lib sample_env = sample_pandas"
  "program_dir sample_env = ''/opt/stockdata''"
  by (simp_all add: sample_env_def hist_request_def df_empty_def sample_frame_def)

section \<open>The written file\<close>

lemma fmt_date_text:
  "fmt_cell pd (date_text pd x) = '''' \<or> is_yyyy_mm_dd (fmt_cell pd (date_text pd x))"
proof (cases "to_datetime_cell pd x")
  case (Inl e)
  then show ?thesis by (simp add: date_text_def)
next
  case (Inr t)
  then show ?thesis
    by (cases t) (simp_all add: date_text_def is_yyyy_mm_dd_strftime)
qed

lemma renamed_source_labels:
  "map (rename_label rename_table) (map fst rename_table) =
     [''date'', ''open'', ''close'', ''high'', ''low'', ''volume'', ''amount'',
      ''amplitude'', ''pct_change'', ''price_change'', ''turnover'']"
  by code_simp

text \<open>
  C3 (as stated, refuted).  The provider's response with the stock code after the date
  is not empty; the run succeeds and writes twelve headers, not the eleven of the
  claim, and the row whose date is missing is written with an empty date field, which is
  not of the shape \<open>YYYY-MM-DD\<close>.
\<close>

theorem csv_headers_counterexample:
  "stock_zh_a_hist sample_env (hist_request sample_env ''600519'' (ak_adjust_of ''qfq'')) =
     Inr sample_frame \<and>
   \<not> df_empty sample_frame \<and>
   fst (get_stock_data sample_env ''600519'' ''qfq'' sample_world) = Inr () \<and>
   map_option records
     (files (snd (get_stock_data sample_env ''600519'' ''qfq'' sample_world))
        ''/opt/stockdata/A_data/600519_qfq_A_data.csv'') = Some sample_csv \<and>
   length (hd sample_csv) = 12 \<and>
   hd sample_csv \<noteq>
     [''date'', ''open'', ''close'', ''high'', ''low'', ''volume'', ''amount'',
      ''amplitude'', ''pct_change'', ''price_change'', ''turnover''] \<and>
   hd sample_csv ! 0 = ''date'' \<and>
   sample_csv ! 2 ! 0 = '''' \<and>
   \<not> is_yyyy_mm_dd (sample_csv ! 2 ! 0)"
  by code_simp

text \<open>
  C3 (amended).  When a run succeeds on a response that is not empty, the file written is
  encoded as UTF-8; its header is the provider's column labels with the rename table
  applied, in the provider's order, so it is the eleven normalized headers in their fixed
  order when the provider's columns are the eleven source labels in that order; every
  record has as many fields as the table has columns, hence no field for the row label;
  and in every record after the header the field under \<open>date\<close> is empty or has the
  strict shape \<open>YYYY-MM-DD\<close>.
\<close>

theorem csv_headers_and_dates:
  assumes wf: "wf_frame df0"
    and "stock_zh_a_hist ev (hist_request ev symbol (ak_adjust_of adjust_type)) = Inr df0"
    and "\<not> df_empty df0"
    and ok: "normalize (pd_lib ev) df0 = Inr df'"
    and "os_path_exists w (data_dir_of (program_dir ev)) \<or> makedirs_fault ev = None"
    and "to_csv_fault ev = None"
  shows "\<exists>w' f. get_stock_data ev symbol adjust_type w = (Inr (), w') \<and>
           files w' (full_file_path_of (program_dir ev) symbol (ak_adjust_of adjust_type)) = Some f \<and>
           encoding f = ''utf-8'' \<and>
           hd (records f) = map (rename_label rename_table) (columns df0) \<and>
           (columns df0 = map fst rename_table \<longrightarrow>
              hd (records f) =
                [''date'', ''open'', ''close'', ''high'', ''low'', ''volume'', ''amount'',
                 ''amplitude'', ''pct_change'', ''price_change'', ''turnover'']) \<and>
           (\<forall>fields \<in> set (records f). length fields = length (columns df0)) \<and>
           (\<forall>fields \<in> set (tl (records f)). \<forall>i < length (columns df0).
              hd (records f) ! i = ''date'' \<longrightarrow>
              fields ! i = '''' \<or> is_yyyy_mm_dd (fields ! i))"
proof -
  let ?pd = "pd_lib ev"
  let ?cs = "columns df'"
  let ?recs = "csv_records ?pd False df'"
  note cols = normalize_Inr(1) [OF wf ok]
  note rws = normalize_Inr(2) [OF wf ok]
  have len: "length ?cs = length (columns df0)" unfolding cols by simp
  have wf': "wf_frame df'" by (rule normalize_wf [OF wf ok])
  have recs: "?recs = ?cs # map (\<lambda>r. map (fmt_cell ?pd) (snd r)) (rows df')"
    by (simp add: csv_records_def case_prod_beta)
  have h1: "hd ?recs = map (rename_label rename_table) (columns df0)"
    unfolding recs cols by simp
  have h2: "hd ?recs = [''date'', ''open'', ''close'', ''high'', ''low'', ''volume'', ''amount'',
                 ''amplitude'', ''pct_change'', ''price_change'', ''turnover'']"
    if "columns df0 = map fst rename_table"
    unfolding h1 that by (rule renamed_source_labels)
  have h3: "\<forall>fields \<in> set ?recs. length fields = length (columns df0)"
    unfolding recs using wf' len by (auto simp: wf_frame_def list_all_iff)
  have h4: "\<forall>fields \<in> set (tl ?recs). \<forall>i < length (columns df0).
              hd ?recs ! i = ''date'' \<longrightarrow> fields ! i = '''' \<or> is_yyyy_mm_dd (fields ! i)"
  proof (intro ballI allI impI)
    fix fields i
    assume fl: "fields \<in> set (tl ?recs)" and i: "i < length (columns df0)"
      and d: "hd ?recs ! i = ''date''"
    from fl obtain r' where r': "r' \<in> set (rows df')" and fr: "fields = map (fmt_cell ?pd) (snd r')"
      unfolding recs by auto
    from r' obtain r where r: "r \<in> set (rows df0)" and nr: "r' = norm_row ?pd ?cs r"
      by (subst (asm) rws) auto
    have lr: "length (snd r) = length ?cs"
      using wf r len by (simp add: wf_frame_def list_all_iff)
    have ci: "?cs ! i = ''date''" using d unfolding recs by simp
    have "snd r' ! i = norm_cell ?pd (?cs ! i) (snd r ! i)"
      unfolding nr using i len by (intro norm_row_nth [OF _ lr]) simp
    then have "snd r' ! i = date_text ?pd (snd r ! i)"
      unfolding ci by (simp add: norm_cell_def)
    moreover have "i < length (snd r')"
      using wf' r' i len by (simp add: wf_frame_def list_all_iff)
    ultimately have "fields ! i = fmt_cell ?pd (date_text ?pd (snd r ! i))"
      unfolding fr by simp
    then show "fields ! i = '''' \<or> is_yyyy_mm_dd (fields ! i)"
      using fmt_date_text [of ?pd "snd r ! i"] by simp
  qed
  from get_stock_data_success [OF assms(2,3) ok assms(5,6)]
  obtain w' where g: "get_stock_data ev symbol adjust_type w = (Inr (), w')"
    and f: "files w' = (files w)(full_file_path_of (program_dir ev) symbol (ak_adjust_of adjust_type) \<mapsto>
                        \<lparr>encoding = ''utf-8'', records = ?recs\<rparr>)"
    by blast
  let ?f = "\<lparr>encoding = ''utf-8'', records = ?recs\<rparr>"
  have fs: "files w' (full_file_path_of (program_dir ev) symbol (ak_adjust_of adjust_type)) = Some ?f"
    unfolding f by simp
  have rf: "records ?f = ?recs" by simp
  show ?thesis
  proof (intro exI conjI)
    show "get_stock_data ev symbol adjust_type w = (Inr (), w')" by (rule g)
    show "files w' (full_file_path_of (program_dir ev) symbol (ak_adjust_of adjust_type)) = Some ?f"
      by (rule fs)
    show "encoding ?f = ''utf-8''" by simp
    show "hd (records ?f) = map (rename_label rename_table) (columns df0)"
      unfolding rf by (rule h1)
    show "columns df0 = map fst rename_table \<longrightarrow>
              hd (records ?f) =
                [''date'', ''open'', ''close'', ''high'', ''low'', ''volume'', ''amount'',
                 ''amplitude'', ''pct_change'', ''price_change'', ''turnover'']"
      unfolding rf by (rule impI) (rule h2)
    show "\<forall>fields \<in> set (records ?f). length fields = length (columns df0)"
      unfolding rf by (rule h3)
    show "\<forall>fields \<in> set (tl (records ?f)). \<forall>i < length (columns df0).
              hd (records ?f) ! i = ''date'' \<longrightarrow>
              fields ! i = '''' \<or> is_yyyy_mm_dd (fields ! i)"
      unfolding rf by (rule h4)
  qed
qed

lemma plain_run_hyps:
  "stock_zh_a_hist sample_env (hist_request sample_env ''000001'' (ak_adjust_of ''qfq'')) =
     Inr plain_frame"
  "\<not> df_empty plain_frame"
  "columns plain_frame = map fst rename_table"
  "full_file_path_of (program_dir sample_env) ''000001'' (ak_adjust_of ''qfq'') =
     ''/opt/stockdata/A_data/000001_qfq_A_data.csv''"
  by code_simp+

theorem csv_headers_and_dates_witness:
  "wf_frame plain_frame \<and> \<not> df_empty plain_frame \<and>
   columns plain_frame = map fst rename_table \<and>
   fst (get_stock_data sample_env ''000001'' ''qfq'' sample_world) = Inr () \<and>
   (\<exists>f. files (snd (get_stock_data sample_env ''000001'' ''qfq'' sample_world))
          ''/opt/stockdata/A_data/000001_qfq_A_data.csv'' = Some f \<and>
        encoding f = ''utf-8'' \<and>
        hd (records f) =
          [''date'', ''open'', ''close'', ''high'', ''low'', ''volume'', ''amount'',
           ''amplitude'', ''pct_change'', ''price_change'', ''turnover''])"
proof -
  note n = sample_normalize(2) [folded sample_run_hyps(7)]
  from csv_headers_and_dates
         [OF sample_wf(2) plain_run_hyps(1,2) n sample_run_hyps(5,6)]
  obtain w' f where g: "get_stock_data sample_env ''000001'' ''qfq'' sample_world = (Inr (), w')"
    and fs: "files w' (full_file_path_of (program_dir sample_env) ''000001'' (ak_adjust_of ''qfq'')) = Some f"
    and en: "encoding f = ''utf-8''"
    and hd: "columns plain_frame = map fst rename_table \<longrightarrow>
              hd (records f) =
                [''date'', ''open'', ''close'', ''high'', ''low'', ''volume'', ''amount'',
                 ''amplitude'', ''pct_change'', ''price_change'', ''turnover'']"
    by blast
  have a: "fst (get_stock_data sample_env ''000001'' ''qfq'' sample_world) = Inr ()"
    by (simp add: g)
  have b: "files (snd (get_stock_data sample_env ''000001'' ''qfq'' sample_world))
          ''/opt/stockdata/A_data/000001_qfq_A_data.csv'' = Some f"
    using fs unfolding plain_run_hyps(4) by (simp add: g)
  have c: "hd (records f) =
          [''date'', ''open'', ''close'', ''high'', ''low'', ''volume'', ''amount'',
           ''amplitude'', ''pct_change'', ''price_change'', ''turnover'']"
    using hd plain_run_hyps(3) by (rule mp)
  from b en c have "\<exists>f. files (snd (get_stock_data sample_env ''000001'' ''qfq'' sample_world))
          ''/opt/stockdata/A_data/000001_qfq_A_data.csv'' = Some f \<and>
        encoding f = ''utf-8'' \<and>
        hd (records f) =
          [''date'', ''open'', ''close'', ''high'', ''low'', ''volume'', ''amount'',
           ''amplitude'', ''pct_change'', ''price_change'', ''turnover'']"
    by (intro exI [of _ f] conjI)
  with sample_wf(2) plain_run_hyps(2,3) a show ?thesis by (intro conjI)
qed

section \<open>A symbol that is an absolute path\<close>


section \<open>Columns outside the rename table, in the written file\<close>

text \<open>
  C9.  Take a run that succeeds: the provider returns a table that is not empty, the
  normalizer returns, the directory exists or can be created and the write does not
  fail.  A column of the provider's response whose label is not a source label of the
  rename table is neither renamed nor dropped: in the file that the run writes, the
  header has as many fields as the response has columns and carries the column's label
  at the column's position, as the normalized table does.  When the label is not one of
  the normalized names either, the cells pass unchanged: the column of the normalized
  table, and the column of the written records after formatting, is the fetched column
  restricted to the rows that are kept.
\<close>

theorem unmapped_column_passes_through:
  assumes wf: "wf_frame df0"
    and resp: "stock_zh_a_hist ev (hist_request ev symbol (ak_adjust_of adjust_type)) = Inr df0"
    and ne: "\<not> df_empty df0"
    and ok: "normalize (pd_lib ev) df0 = Inr df'"
    and dir: "os_path_exists w (data_dir_of (program_dir ev)) \<or> makedirs_fault ev = None"
    and nofault: "to_csv_fault ev = None"
    and j: "j < length (columns df0)"
    and unmapped: "columns df0 ! j \<notin> fst ` set rename_table"
  shows "\<exists>w' f. get_stock_data ev symbol adjust_type w = (Inr (), w') \<and>
           files w' (full_file_path_of (program_dir ev) symbol (ak_adjust_of adjust_type)) = Some f \<and>
           length (hd (records f)) = length (columns df0) \<and>
           hd (records f) ! j = columns df0 ! j \<and>
           columns df' ! j = columns df0 ! j \<and>
           (columns df0 ! j \<notin> snd ` set rename_table \<longrightarrow>
              map (\<lambda>r. snd r ! j) (rows df') =
                map (\<lambda>r. snd r ! j)
                  (filter (\<lambda>r. has_essential (columns df')
                                 (snd (norm_row (pd_lib ev) (columns df') r)))
                     (rows df0)) \<and>
              map (\<lambda>fields. fields ! j) (tl (records f)) =
                map (\<lambda>r. fmt_cell (pd_lib ev) (snd r ! j))
                  (filter (\<lambda>r. has_essential (columns df')
                                 (snd (norm_row (pd_lib ev) (columns df') r)))
                     (rows df0)))"
proof -
  let ?pd = "pd_lib ev"
  let ?recs = "csv_records ?pd False df'"
  let ?keep = "\<lambda>r. has_essential (columns df') (snd (norm_row ?pd (columns df') r))"
  note t = unmapped_column_in_table [OF wf ok j unmapped]
  from t have len: "length (columns df') = length (columns df0)"
    and lbl: "columns df' ! j = columns df0 ! j"
    and hdr: "hd ?recs ! j = columns df0 ! j"
    by simp_all
  have hl: "length (hd ?recs) = length (columns df0)"
    using len by (simp add: csv_records_def)
  have cells: "columns df0 ! j \<notin> snd ` set rename_table \<longrightarrow>
              map (\<lambda>r. snd r ! j) (rows df') = map (\<lambda>r. snd r ! j) (filter ?keep (rows df0)) \<and>
              map (\<lambda>fields. fields ! j) (tl ?recs) =
                map (\<lambda>r. fmt_cell ?pd (snd r ! j)) (filter ?keep (rows df0))"
    by (rule conjunct2 [OF conjunct2 [OF conjunct2 [OF t]]])
  from get_stock_data_success [OF resp ne ok dir nofault]
  obtain w' where g: "get_stock_data ev symbol adjust_type w = (Inr (), w')"
    and f: "files w' = (files w)(full_file_path_of (program_dir ev) symbol (ak_adjust_of adjust_type) \<mapsto>
                        \<lparr>encoding = ''utf-8'', records = ?recs\<rparr>)"
    by blast
  let ?f = "\<lparr>encoding = ''utf-8'', records = ?recs\<rparr>"
  have fs: "files w' (full_file_path_of (program_dir ev) symbol (ak_adjust_of adjust_type)) = Some ?f"
    unfolding f by simp
  have rf: "records ?f = ?recs" by simp
  show ?thesis
  proof (intro exI conjI)
    show "get_stock_data ev symbol adjust_type w = (Inr (), w')" by (rule g)
    show "files w' (full_file_path_of (program_dir ev) symbol (ak_adjust_of adjust_type)) = Some ?f"
      by (rule fs)
    show "length (hd (records ?f)) = length (columns df0)" unfolding rf by (rule hl)
    show "hd (records ?f) ! j = columns df0 ! j" unfolding rf by (rule hdr)
    show "columns df' ! j = columns df0 ! j" by (rule lbl)
    show "columns df0 ! j \<notin> snd ` set rename_table \<longrightarrow>
              map (\<lambda>r. snd r ! j) (rows df') = map (\<lambda>r. snd r ! j) (filter ?keep (rows df0)) \<and>
              map (\<lambda>fields. fields ! j) (tl (records ?f)) =
                map (\<lambda>r. fmt_cell ?pd (snd r ! j)) (filter ?keep (rows df0))"
      unfolding rf by (rule cells)
  qed
qed

lemma sample_code_path:
  "full_file_path_of (program_dir sample_env) ''600519'' (ak_adjust_of ''qfq'') =
     ''/opt/stockdata/A_data/600519_qfq_A_data.csv''"
  "map (\<lambda>r. fmt_cell (pd_lib sample_env) (snd r ! 1))
     (filter (\<lambda>r. has_essential (columns sample_normalized)
                     (snd (norm_row (pd_lib sample_env) (columns sample_normalized) r)))
        (rows sample_frame)) = [''600519'', ''600519'', ''600519'']"
  by code_simp+

theorem unmapped_column_passes_through_witness:
  "wf_frame sample_frame \<and> \<not> df_empty sample_frame \<and>
   columns sample_frame ! 1 = lbl_code \<and>
   lbl_code \<notin> fst ` set rename_table \<and> lbl_code \<notin> snd ` set rename_table \<and>
   fst (get_stock_data sample_env ''600519'' ''qfq'' sample_world) = Inr () \<and>
   (\<exists>f. files (snd (get_stock_data sample_env ''600519'' ''qfq'' sample_world))
          ''/opt/stockdata/A_data/600519_qfq_A_data.csv'' = Some f \<and>
        length (hd (records f)) = 12 \<and>
        hd (records f) ! 1 = lbl_code \<and>
        map (\<lambda>fields. fields ! 1) (tl (records f)) = [''600519'', ''600519'', ''600519''])"
proof -
  note n = sample_normalize(1) [folded sample_run_hyps(7)]
  have u: "columns sample_frame ! 1 \<notin> fst ` set rename_table"
    and v: "columns sample_frame ! 1 \<notin> snd ` set rename_table"
    unfolding sample_code_column(2) by (rule sample_code_column(3), rule sample_code_column(4))
  have l12: "length (columns sample_frame) = 12" by (simp add: sample_frame_def)
  from unmapped_column_passes_through
         [OF sample_wf(1) sample_run_hyps(3,4) n sample_run_hyps(5,6) sample_code_column(1) u]
  obtain w' f where g: "get_stock_data sample_env ''600519'' ''qfq'' sample_world = (Inr (), w')"
    and fs: "files w' (full_file_path_of (program_dir sample_env) ''600519'' (ak_adjust_of ''qfq'')) = Some f"
    and hl: "length (hd (records f)) = length (columns sample_frame)"
    and hd: "hd (records f) ! 1 = columns sample_frame ! 1"
    and cells: "columns sample_frame ! 1 \<notin> snd ` set rename_table \<longrightarrow>
              map (\<lambda>r. snd r ! 1) (rows sample_normalized) =
                map (\<lambda>r. snd r ! 1)
                  (filter (\<lambda>r. has_essential (columns sample_normalized)
                                 (snd (norm_row (pd_lib sample_env) (columns sample_normalized) r)))
                     (rows sample_frame)) \<and>
              map (\<lambda>fields. fields ! 1) (tl (records f)) =
                map (\<lambda>r. fmt_cell (pd_lib sample_env) (snd r ! 1))
                  (filter (\<lambda>r. has_essential (columns sample_normalized)
                                 (snd (norm_row (pd_lib sample_env) (columns sample_normalized) r)))
                     (rows sample_frame))"
    by blast
  have a: "fst (get_stock_data sample_env ''600519'' ''qfq'' sample_world) = Inr ()"
    by (simp add: g)
  have b: "files (snd (get_stock_data sample_env ''600519'' ''qfq'' sample_world))
          ''/opt/stockdata/A_data/600519_qfq_A_data.csv'' = Some f"
    using fs unfolding sample_code_path(1) by (simp add: g)
  have c: "length (hd (records f)) = 12" using hl l12 by simp
  have d: "hd (records f) ! 1 = lbl_code" using hd unfolding sample_code_column(2) .
  from cells v have "map (\<lambda>fields. fields ! 1) (tl (records f)) =
                map (\<lambda>r. fmt_cell (pd_lib sample_env) (snd r ! 1))
                  (filter (\<lambda>r. has_essential (columns sample_normalized)
                                 (snd (norm_row (pd_lib sample_env) (columns sample_normalized) r)))
                     (rows sample_frame))"
    by (simp only: simp_thms)
  then have e: "map (\<lambda>fields. fields ! 1) (tl (records f)) = [''600519'', ''600519'', ''600519'']"
    unfolding sample_code_path(2) .
  from b c d e have "\<exists>f. files (snd (get_stock_data sample_env ''600519'' ''qfq'' sample_world))
          ''/opt/stockdata/A_data/600519_qfq_A_data.csv'' = Some f \<and>
        length (hd (records f)) = 12 \<and>
        hd (records f) ! 1 = lbl_code \<and>
        map (\<lambda>fields. fields ! 1) (tl (records f)) = [''600519'', ''600519'', ''600519'']"
    by (intro exI [of _ f] conjI)
  with sample_wf(1) sample_run_hyps(4) sample_code_column(2,3,4) a show ?thesis
    by (intro conjI)
qed

section \<open>Properties of the command line\<close>

lemma parse_items_adjust:
  assumes "parse_items c a extras xs = Inr r"
  shows "arg_adjust r = a \<or> arg_adjust r \<in> set adjust_choices"
  using assms
  by (induction c a extras xs rule: parse_items.induct)
     (auto split: option.splits if_splits)

lemma parse_items_default:
  assumes "parse_items c a extras xs = Inr r" and "\<forall>v. OptAdjust v \<notin> set xs"
  shows "arg_adjust r = a"
  using assms
  by (induction c a extras xs rule: parse_items.induct)
     (auto split: option.splits if_splits)

lemma parse_items_code:
  assumes "parse_items c a extras xs = Inr r"
  shows "c \<noteq> None \<or> (\<exists>v. OptCode v \<in> set xs)"
  using assms
  by (induction c a extras xs rule: parse_items.induct)
     (auto split: option.splits if_splits)

lemma parse_items_exit:
  assumes "parse_items c a extras xs = Inl e"
  shows "\<exists>n. e = SystemExit n"
  using assms
  by (induction c a extras xs rule: parse_items.induct)
     (auto split: option.splits if_splits)

lemma parse_items_rejects:
  assumes "OptAdjust v \<in> set xs" and "v \<notin> set adjust_choices"
  shows "\<exists>n. parse_items c a extras xs = Inl (SystemExit n)"
  using assms
  by (induction c a extras xs rule: parse_items.induct)
     (auto split: option.splits if_splits)

text \<open>
  C8.  When the command line is accepted, \<open>--code\<close> was given, the adjustment is one of
  \<open>qfq\<close>, \<open>hfq\<close>, \<open>none\<close>, it is \<open>qfq\<close> when \<open>--adjust\<close> was not given, and these two
  values are what \<open>get_stock_data\<close> is called with.  Without \<open>--code\<close>, and with a value
  of \<open>--adjust\<close> outside the three, the process exits in the parser: \<open>get_stock_data\<close>
  does not run and the world is as before.
\<close>

theorem command_line_is_validated:
  "(parse_args argv = Inr a \<longrightarrow>
      (\<exists>v. OptCode v \<in> set argv) \<and>
      arg_adjust a \<in> {''qfq'', ''hfq'', ''none''} \<and>
      ((\<forall>v. OptAdjust v \<notin> set argv) \<longrightarrow> arg_adjust a = ''qfq'') \<and>
      main ev argv w = get_stock_data ev (arg_code a) (arg_adjust a) w) \<and>
   ((\<forall>v. OptCode v \<notin> set argv) \<longrightarrow> (\<exists>n. main ev argv w = (Inl (SystemExit n), w))) \<and>
   (OptAdjust v \<in> set argv \<and> v \<notin> {''qfq'', ''hfq'', ''none''} \<longrightarrow>
      (\<exists>n. main ev argv w = (Inl (SystemExit n), w)))"
proof (intro conjI impI)
  assume p: "parse_args argv = Inr a"
  show "\<exists>v. OptCode v \<in> set argv"
    using parse_items_code [OF p [unfolded parse_args_def]] by simp
  show "arg_adjust a \<in> {''qfq'', ''hfq'', ''none''}"
    using parse_items_adjust [OF p [unfolded parse_args_def]]
    by (auto simp: adjust_choices_def)
  show "main ev argv w = get_stock_data ev (arg_code a) (arg_adjust a) w"
    by (simp add: main_def p)
  assume "\<forall>v. OptAdjust v \<notin> set argv"
  then show "arg_adjust a = ''qfq''"
    using parse_items_default [OF p [unfolded parse_args_def]] by simp
next
  assume no: "\<forall>v. OptCode v \<notin> set argv"
  show "\<exists>n. main ev argv w = (Inl (SystemExit n), w)"
  proof (cases "parse_args argv")
    case (Inl e)
    then obtain n where "e = SystemExit n"
      using parse_items_exit unfolding parse_args_def by blast
    with Inl show ?thesis by (simp add: main_def)
  next
    case (Inr r)
    then have "\<exists>v. OptCode v \<in> set argv"
      using parse_items_code [of None _ False argv r] by (simp add: parse_args_def)
    with no show ?thesis by simp
  qed
next
  assume "OptAdjust v \<in> set argv \<and> v \<notin> {''qfq'', ''hfq'', ''none''}"
  then have "OptAdjust v \<in> set argv" "v \<notin> set adjust_choices"
    by (simp_all add: adjust_choices_def)
  from parse_items_rejects [OF this] obtain n where
    "parse_args argv = Inl (SystemExit n)" unfolding parse_args_def by blast
  then show "\<exists>n. main ev argv w = (Inl (SystemExit n), w)"
    by (simp add: main_def)
qed

theorem command_line_is_validated_witness:
  "parse_args [OptCode ''600519''] = Inr \<lparr>arg_code = ''600519'', arg_adjust = ''qfq''\<rparr> \<and>
   main sample_env [OptCode ''600519''] sample_world =
     get_stock_data sample_env ''600519'' ''qfq'' sample_world \<and>
   main sample_env [OptAdjust ''hfq''] sample_world = (Inl (SystemExit 2), sample_world) \<and>
   main sample_env [OptCode ''600519'', OptAdjust ''weekly''] sample_world =
     (Inl (SystemExit 2), sample_world)"
proof -
  have p: "parse_args [OptCode ''600519''] = Inr \<lparr>arg_code = ''600519'', arg_adjust = ''qfq''\<rparr>"
    by (simp add: parse_args_def)
  from command_line_is_validated
         [of "[OptCode ''600519'']" "\<lparr>arg_code = ''600519'', arg_adjust = ''qfq''\<rparr>"
             sample_env sample_world] p
  have a: "main sample_env [OptCode ''600519''] sample_world =
     get_stock_data sample_env ''600519'' ''qfq'' sample_world"
    by simp
  from command_line_is_validated [of "[OptAdjust ''hfq'']" _ sample_env sample_world]
  obtain n where "main sample_env [OptAdjust ''hfq''] sample_world = (Inl (SystemExit n), sample_world)"
    by auto
  then have b: "main sample_env [OptAdjust ''hfq''] sample_world = (Inl (SystemExit 2), sample_world)"
    by (simp add: main_def parse_args_def adjust_choices_def)
  from command_line_is_validated
         [of "[OptCode ''600519'', OptAdjust ''weekly'']" _ sample_env sample_world "''weekly''"]
  obtain m where "main sample_env [OptCode ''600519'', OptAdjust ''weekly''] sample_world =
     (Inl (SystemExit m), sample_world)"
    by auto
  then have c: "main sample_env [OptCode ''600519'', OptAdjust ''weekly''] sample_world =
     (Inl (SystemExit 2), sample_world)"
    by (simp add: main_def parse_args_def adjust_choices_def)
  from p a b c show ?thesis by (intro conjI)
qed

end
